theory Spec2Isabelle
  imports Main "HOL-Library.Sublist"
begin

section \<open>The PR on-boarding feature of autobot (src/lib/features/pr-onboarding.ts)\<close>

text \<open>
  The feature keeps a checklist, embedded in the description of a pull request between two
  sentinel comments, in agreement with the release labels of the pull request. This theory
  embeds the module function by function. JavaScript strings are \<^typ>\<open>string\<close>
  (lists of characters with code units below 256), a thrown exception or a rejected promise
  is the \<open>Inl\<close> of a sum, \<open>undefined\<close> is \<open>None\<close>, and the calls the handler issues
  against the GitHub client are collected in a list, in the order of the source.
\<close>

subsection \<open>JavaScript strings\<close>

datatype error =
    TypeError           \<comment> \<open>a property read on \<open>undefined\<close>\<close>
  | Rejected string     \<comment> \<open>the rejection of a promise of a collaborator\<close>
  | Error string        \<comment> \<open>\<open>new Error(message)\<close>\<close>

text \<open>\<open>s.indexOf(sep)\<close>: the position of the first occurrence of \<open>sep\<close> in \<open>s\<close>.\<close>

fun indexOf :: "string \<Rightarrow> string \<Rightarrow> nat option" where
  "indexOf sep [] = (if sep = [] then Some 0 else None)"
| "indexOf sep (c # cs) =
     (if prefix sep (c # cs) then Some 0 else map_option Suc (indexOf sep cs))"

text \<open>
  \<open>s.split(sep)\<close>: the pieces of \<open>s\<close> between the occurrences of \<open>sep\<close>, found from left to
  right without overlap; an empty separator splits into single characters.
\<close>

function split :: "string \<Rightarrow> string \<Rightarrow> string list" where
  "split sep s =
     (if sep = [] then map (\<lambda>c. [c]) s
      else case indexOf sep s of
             None \<Rightarrow> [s]
           | Some i \<Rightarrow> take i s # split sep (drop (i + length sep) s))"
  by pat_completeness auto
termination
proof (relation "measure (\<lambda>(sep, s). length s)")
  show "wf (measure (\<lambda>(sep, s). length s))"
    by simp
next
  fix sep s :: string and i :: nat
  assume "sep \<noteq> []" and "indexOf sep s = Some i"
  then have "length s - (i + length sep) < length s"
    by (cases s; cases sep) auto
  then show "((sep, drop (i + length sep) s), (sep, s)) \<in> measure (\<lambda>(sep, s). length s)"
    by simp
qed

declare split.simps [simp del]

text \<open>\<open>xs.join(sep)\<close>.\<close>

fun join :: "string \<Rightarrow> string list \<Rightarrow> string" where
  "join sep [] = []"
| "join sep [x] = x"
| "join sep (x # y # ys) = x @ sep @ join sep (y # ys)"

text \<open>
  The white space of \<open>\s\<close> and of \<open>trim\<close> among the code units below 256: tab, line feed,
  vertical tab, form feed, carriage return, space and no-break space.
\<close>

definition js_space :: "char \<Rightarrow> bool" where
  "js_space c = (of_char c \<in> {9, 10, 11, 12, 13, 32, 160 :: nat})"

definition trim :: "string \<Rightarrow> string" where
  "trim s = rev (dropWhile js_space (rev (dropWhile js_space s)))"

text \<open>\<open>s.replace(/pat/g, rep)\<close> for a literal pattern.\<close>

fun replaceAll :: "string \<Rightarrow> string \<Rightarrow> string \<Rightarrow> string" where
  "replaceAll pat rep [] = []"
| "replaceAll pat rep (c # cs) =
     (if pat \<noteq> [] \<and> prefix pat (c # cs)
      then rep @ replaceAll pat rep (drop (length pat - 1) cs)
      else c # replaceAll pat rep cs)"

text \<open>\<open>start + wrapped + end\<close> where \<open>end\<close> may be \<open>undefined\<close>.\<close>

definition toString :: "string option \<Rightarrow> string" where
  "toString v = (case v of None \<Rightarrow> ''undefined'' | Some s \<Rightarrow> s)"

subsection \<open>The tagged template \<open>dedent\<close>\<close>

text \<open>
  The module builds every text with the template tag of the package \<open>dedent\<close> (0.7). None of
  the templates of the module has a backslash in its literal parts, so the tag is a function
  of the interpolated text: it splits the text into lines, takes the least width of the
  leading white space over the lines that match \<open>/^(\s+)\S+/\<close>, removes that many
  characters from every line that starts with a space, joins the lines, trims the result and
  replaces every backslash followed by \<open>n\<close> by a line feed. The interpolated values are
  part of the text that is dedented.
\<close>

definition indent_of :: "string \<Rightarrow> nat option" where
  "indent_of l =
     (let ws = takeWhile js_space l
      in if ws \<noteq> [] \<and> dropWhile js_space l \<noteq> [] then Some (length ws) else None)"

definition mindent_step :: "nat option \<Rightarrow> string \<Rightarrow> nat option" where
  "mindent_step mindent l =
     (case indent_of l of
        None \<Rightarrow> mindent
      | Some indent \<Rightarrow>
          (case mindent of None \<Rightarrow> Some indent | Some m \<Rightarrow> Some (min m indent)))"

definition strip_line :: "nat \<Rightarrow> string \<Rightarrow> string" where
  "strip_line mindent l =
     (case l of [] \<Rightarrow> l | c # _ \<Rightarrow> if c = CHR '' '' then drop mindent l else l)"

definition dedent :: "string \<Rightarrow> string" where
  "dedent result =
     (let lines = split ''\<newline>'' result;
          mindent = foldl mindent_step None lines;
          result' = (case mindent of
                       None \<Rightarrow> result
                     | Some m \<Rightarrow> join ''\<newline>'' (map (strip_line m) lines))
      in replaceAll [CHR 0x5C, CHR ''n''] ''\<newline>'' (trim result'))"

text \<open>
  A text that the template tag returns as it is where a template interpolates it: none of
  its lines is indented (white space before other text) or begins with a space, and it has
  no backslash followed by \<open>n\<close>.
\<close>

definition plain_text :: "string \<Rightarrow> bool" where
  "plain_text s =
     (list_all (\<lambda>l. indent_of l = None \<and> \<not> prefix '' '' l) (split ''\<newline>'' s) \<and>
      \<not> sublist [CHR 0x5C, CHR ''n''] s)"

subsection \<open>The message envelope\<close>

definition MessageStart :: string where
  "MessageStart = ''<!--- AutoPR:START --->''"

definition MessageEnd :: string where
  "MessageEnd = ''<!--- AutoPR:END --->''"

definition messageWrapper :: "string \<Rightarrow> string" where
  "messageWrapper body = dedent
     (''\<newline>    '' @ MessageStart @ '' \<newline>    ---\<newline>\<newline>    '' @ body @
      ''\<newline>\<newline>    <sub>_Generated by [auto-it](https://github.com/apps/auto-it)_</sub>\<newline>    '' @
      MessageEnd @ '' \<newline>'')"

definition onBoardingMessage :: "string list \<Rightarrow> string" where
  \<open>onBoardingMessage sections = dedent
     (''\<newline>    <img align="left" width="60" src="https://autobot.auto-it.now.sh/public/logo.png"/>\<newline>\<newline>    ### Choose a release label\<newline>\<newline>    This repository uses [auto](https://github.com/intuit/auto) to generate releases. In order to do that, \<newline>    it needs an appropriate label assigned to each PR. Choose a label below that you feel best suites your changes.\<newline>\<newline>    '' @
      join ''\<newline>\<newline>'' sections @ ''\<newline>  '')\<close>

text \<open>
  \<open>body.split(MessageStart)[1].split(MessageEnd)[0]\<close>: the second piece is \<open>undefined\<close>
  when the body has no start marker, and reading \<open>split\<close> of it throws; the first piece of
  a split always exists.
\<close>

definition parseMessage :: "string \<Rightarrow> error + string" where
  "parseMessage body =
     (case split MessageStart body of
        _ # bottomHalf # _ \<Rightarrow> Inr (hd (split MessageEnd bottomHalf))
      | _ \<Rightarrow> Inl TypeError)"

subsection \<open>The payload and the collaborators\<close>

text \<open>
  Modelled from the spec: the types \<open>ChecklistItem\<close> and \<open>Checklist\<close> of models/checklist
  and \<open>Label\<close> of models/label, which the module imports; the fields are the ones the module
  reads and writes (\<open>id\<close>, \<open>checked\<close>, \<open>body\<close>; \<open>id\<close>, \<open>items\<close>; \<open>name\<close>).
\<close>

record ChecklistItem =
  item_id :: string
  checked :: bool
  item_body :: string

record Checklist =
  checklist_id :: string
  items :: "ChecklistItem list"

record Label =
  label_name :: string
  label_description :: "string option"
  label_color :: "string option"

text \<open>
  The result of \<open>parseChecklists\<close> is an object from checklist keys to checklists: a list of
  pairs with distinct keys, in the order of insertion, which is the order of
  \<open>Object.values\<close>.
\<close>

type_synonym checklists = "(string \<times> Checklist) list"

text \<open>
  The configuration: \<open>config.labels[labelType]\<close> is the only field the module reads; the
  rest of the configuration is \<open>config_rest\<close>. The type \<open>'lc\<close> is the specification of one
  label in the configuration.
\<close>

record ('lc, 'x) Config =
  labels :: "string \<Rightarrow> 'lc option"
  config_rest :: 'x

text \<open>
  The part of the context the module reads: \<open>payload.action\<close>, \<open>payload.pull_request.body\<close>
  and \<open>payload.changes.body.from\<close> (\<open>None\<close> when \<open>changes\<close> or \<open>changes.body\<close> is missing or
  \<open>from\<close> is not a string).
\<close>

record PRContext =
  action :: string
  pr_body :: string
  changes_body_from :: "string option"

text \<open>
  The modules the feature imports and the GitHub client of the context are parameters: one
  field for each function, with the answer it gives. A promise that may reject is a sum, and
  a remote write answers with the failure it rejects with, if any. The type \<open>'gl\<close> is a label
  object of GitHub, \<open>'rel\<close> the release information.
\<close>

record ('lc, 'x, 'gl, 'rel) deps =
  getConfig :: "PRContext \<Rightarrow> error + ('lc, 'x) Config"
  getLabelRelease :: "PRContext \<Rightarrow> ('lc, 'x) Config \<Rightarrow> 'rel"
  hasReleaseLabels :: "'rel \<Rightarrow> bool"
  sentByThisApp :: "PRContext \<Rightarrow> error + bool"
  listLabelsForRepo :: "PRContext \<Rightarrow> error + 'gl list"
  populateLabel :: "string \<Rightarrow> 'lc option \<Rightarrow> PRContext \<Rightarrow> 'gl list \<Rightarrow> error + Label"
  getSkipReleaseLabelsFromConfig :: "('lc, 'x) Config \<Rightarrow> 'lc list"
  getLabelsOnPR :: "PRContext \<Rightarrow> 'gl list"
  labelToString :: "'gl \<Rightarrow> string"
  renderLabel :: "Label \<Rightarrow> string"
  findLabelFromHash :: "string \<Rightarrow> ('lc, 'x) Config \<Rightarrow> string option"
  hash :: "string \<Rightarrow> string"
  createChecklist :: "string \<Rightarrow> string \<Rightarrow> ChecklistItem list \<Rightarrow> string"
  parseChecklists :: "string \<Rightarrow> string \<Rightarrow> checklists"
  moreThanOneItemChecked :: "ChecklistItem list \<Rightarrow> bool"
  sub :: "string \<Rightarrow> string"
  italics :: "string \<Rightarrow> string"
  bold :: "string \<Rightarrow> string"
  addLabelsToPR :: "PRContext \<Rightarrow> string list \<Rightarrow> error option"
  removeLabelsFromPR :: "PRContext \<Rightarrow> string list \<Rightarrow> error option"
  pulls_update :: "PRContext \<Rightarrow> string \<Rightarrow> error option"

subsection \<open>Checklists of the \<open>autobot\<close> namespace\<close>

definition CHECKLIST_NAMESPACE :: string where
  "CHECKLIST_NAMESPACE = ''autobot''"

definition semver :: string where
  "semver = ''semver''"

definition skipRelease :: string where
  "skipRelease = ''skipRelease''"

definition createAutoChecklist ::
  "('lc, 'x, 'gl, 'rel) deps \<Rightarrow> string \<Rightarrow> ChecklistItem list \<Rightarrow> string" where
  "createAutoChecklist D = createChecklist D CHECKLIST_NAMESPACE"

definition parseAutoChecklists :: "('lc, 'x, 'gl, 'rel) deps \<Rightarrow> string \<Rightarrow> checklists" where
  "parseAutoChecklists D body = parseChecklists D body CHECKLIST_NAMESPACE"

definition overwriteMessage :: "PRContext \<Rightarrow> string \<Rightarrow> error + string" where
  "overwriteMessage context content =
     (let body = pr_body context
      in case split MessageStart body of
           start # bottomHalf # _ \<Rightarrow>
             (let end' = (case split MessageEnd bottomHalf of _ # e # _ \<Rightarrow> Some e | _ \<Rightarrow> None)
              in Inr (start @ messageWrapper content @ toString end'))
         | _ \<Rightarrow> Inl TypeError)"

definition sectionHeader ::
  "('lc, 'x, 'gl, 'rel) deps \<Rightarrow> string \<Rightarrow> string option \<Rightarrow> string" where
  "sectionHeader D text' secondaryText =
     sub D (bold D text' @
            (case secondaryText of
               None \<Rightarrow> []
             | Some s \<Rightarrow> if s \<noteq> [] then '' '' @ italics D s else []))"

definition semverHead :: "('lc, 'x, 'gl, 'rel) deps \<Rightarrow> string" where
  "semverHead D = sectionHeader D ''Semver Labels'' (Some ''(choose one at most)'')"

definition skipReleaseHead :: "('lc, 'x, 'gl, 'rel) deps \<Rightarrow> string" where
  "skipReleaseHead D = sectionHeader D ''Skip Release Labels'' None"

definition section' ::
  "('lc, 'x, 'gl, 'rel) deps \<Rightarrow> string \<Rightarrow> string \<Rightarrow> string option \<Rightarrow> string" where
  "section' D header checklist warning = dedent
     (''\<newline>    ##\<newline>\<newline>    '' @ header @ ''\<newline>    \<newline>    '' @ checklist @ ''\<newline>    '' @
      (case warning of
         None \<Rightarrow> []
       | Some w \<Rightarrow>
           if w \<noteq> [] then ''\<newline>'' @ sub D ('':warning: '' @ italics D (bold D w)) else []) @
      ''\<newline>    '')"

text \<open>
  \<open>Promise.all(xs.map(f))\<close>: the results in the order of the list, or a rejection. Every
  callback is started. When several callbacks reject, JavaScript reports the rejection that
  settles first, which the payload does not determine; the model reports the one of the
  first element of the list that rejects. Whether the result is a rejection does not depend
  on that choice.
\<close>

fun promise_all :: "('a \<Rightarrow> error + 'b) \<Rightarrow> 'a list \<Rightarrow> error + 'b list" where
  "promise_all f [] = Inr []"
| "promise_all f (x # xs) =
     (case f x of
        Inl e \<Rightarrow> Inl e
      | Inr y \<Rightarrow> (case promise_all f xs of Inl e \<Rightarrow> Inl e | Inr ys \<Rightarrow> Inr (y # ys)))"

text \<open>
  The item of one label: the body of the two callbacks of \<open>createLabelChecklists\<close> after
  \<open>populateLabel\<close>, which differ in the key of the checklist they read.
\<close>

definition checklistItem ::
  "('lc, 'x, 'gl, 'rel) deps \<Rightarrow> checklists \<Rightarrow> string \<Rightarrow> bool \<Rightarrow> string list \<Rightarrow> Label \<Rightarrow>
   ChecklistItem" where
  "checklistItem D checklists' key useLabels prLabels label =
     (let labelId = hash D (label_name label);
          checked1 =
            (case map_of checklists' key of
               Some checklist \<Rightarrow>
                 if \<not> useLabels
                 then (case find (\<lambda>i. item_id i = labelId) (items checklist) of
                         Some i \<Rightarrow> checked i
                       | None \<Rightarrow> False)
                 else False
             | None \<Rightarrow> False);
          checked2 = (if useLabels then label_name label \<in> set prLabels else checked1)
      in \<lparr>item_id = labelId, checked = checked2, item_body = renderLabel D label\<rparr>)"

definition semverChecklistItems ::
  "('lc, 'x, 'gl, 'rel) deps \<Rightarrow> PRContext \<Rightarrow> ('lc, 'x) Config \<Rightarrow> bool \<Rightarrow> 'gl list \<Rightarrow>
   string list \<Rightarrow> checklists \<Rightarrow> error + ChecklistItem list" where
  "semverChecklistItems D context config useLabels labels' prLabels checklists' =
     promise_all
       (\<lambda>labelType.
          case populateLabel D labelType (labels config labelType) context labels' of
            Inl e \<Rightarrow> Inl e
          | Inr label \<Rightarrow> Inr (checklistItem D checklists' semver useLabels prLabels label))
       [''major'', ''minor'', ''patch'']"

definition skipReleaseChecklistItems ::
  "('lc, 'x, 'gl, 'rel) deps \<Rightarrow> PRContext \<Rightarrow> ('lc, 'x) Config \<Rightarrow> bool \<Rightarrow> 'gl list \<Rightarrow>
   string list \<Rightarrow> checklists \<Rightarrow> error + ChecklistItem list" where
  "skipReleaseChecklistItems D context config useLabels labels' prLabels checklists' =
     promise_all
       (\<lambda>labelConfig.
          case populateLabel D ''skip-release'' (Some labelConfig) context labels' of
            Inl e \<Rightarrow> Inl e
          | Inr label \<Rightarrow> Inr (checklistItem D checklists' skipRelease useLabels prLabels label))
       (getSkipReleaseLabelsFromConfig D config)"

definition semverWarnings ::
  "('lc, 'x, 'gl, 'rel) deps \<Rightarrow> ChecklistItem list \<Rightarrow> string option" where
  "semverWarnings D semverItems =
     (if moreThanOneItemChecked D semverItems
      then Some ''At most one semver label should be selected'' else None)"

definition skipReleaseWarnings ::
  "('lc, 'x, 'gl, 'rel) deps \<Rightarrow> ChecklistItem list \<Rightarrow> string option" where
  "skipReleaseWarnings D skipItems =
     (if moreThanOneItemChecked D skipItems
      then Some ''At most one skip release label should be selected'' else None)"

definition createLabelChecklists ::
  "('lc, 'x, 'gl, 'rel) deps \<Rightarrow> PRContext \<Rightarrow> ('lc, 'x) Config \<Rightarrow> bool \<Rightarrow> error + string list" where
  "createLabelChecklists D context config useLabels =
     (case listLabelsForRepo D context of
        Inl e \<Rightarrow> Inl e
      | Inr labels' \<Rightarrow>
          (let prLabels =
                 (if useLabels then map (labelToString D) (getLabelsOnPR D context) else []);
               checklists' = parseAutoChecklists D (pr_body context)
           in case semverChecklistItems D context config useLabels labels' prLabels checklists' of
                Inl e \<Rightarrow> Inl e
              | Inr semverItems \<Rightarrow>
                  (case skipReleaseChecklistItems D context config useLabels labels' prLabels
                          checklists' of
                     Inl e \<Rightarrow> Inl e
                   | Inr skipItems \<Rightarrow>
                       Inr [section' D (semverHead D) (createAutoChecklist D semver semverItems)
                              (semverWarnings D semverItems),
                            section' D (skipReleaseHead D)
                              (createAutoChecklist D skipRelease skipItems)
                              (skipReleaseWarnings D skipItems)])))"

definition isOnboarding :: "PRContext \<Rightarrow> bool" where
  "isOnboarding context = sublist MessageStart (pr_body context)"

definition didBodyChange :: "PRContext \<Rightarrow> bool" where
  "didBodyChange context = (changes_body_from context \<noteq> None \<and> pr_body context \<noteq> [])"

text \<open>
  The label of a checklist item; \<open>.filter(label => !!label)\<close> keeps a label that is
  neither \<open>undefined\<close> nor the empty string.
\<close>

definition getLabelTextFromChecklistItem ::
  "('lc, 'x, 'gl, 'rel) deps \<Rightarrow> ChecklistItem \<Rightarrow> ('lc, 'x) Config \<Rightarrow> string option" where
  "getLabelTextFromChecklistItem D checklistItem' config =
     findLabelFromHash D (item_id checklistItem') config"

definition truthy :: "string option \<Rightarrow> bool" where
  "truthy label = (case label of None \<Rightarrow> False | Some l \<Rightarrow> l \<noteq> [])"

record LabelChanges =
  labelsToAdd :: "string list"
  labelsToRemove :: "string list"

definition checklistItems :: "checklists \<Rightarrow> ChecklistItem list" where
  "checklistItems checklists' =
     concat (map items
       (filter (\<lambda>checklist. checklist_id checklist \<in> set [semver, skipRelease])
          (map snd checklists')))"

definition getRequiredLabelChanges ::
  "('lc, 'x, 'gl, 'rel) deps \<Rightarrow> string \<Rightarrow> ('lc, 'x) Config \<Rightarrow> error + LabelChanges" where
  "getRequiredLabelChanges D body config =
     (case parseMessage body of
        Inl e \<Rightarrow> Inl e
      | Inr message \<Rightarrow>
          (let checklistItems' = checklistItems (parseAutoChecklists D message)
           in Inr \<lparr>labelsToAdd =
                      map the (filter truthy
                        (map (\<lambda>i. getLabelTextFromChecklistItem D i config)
                           (filter checked checklistItems'))),
                    labelsToRemove =
                      map the (filter truthy
                        (map (\<lambda>i. getLabelTextFromChecklistItem D i config)
                           (filter (\<lambda>i. \<not> checked i) checklistItems')))\<rparr>))"

definition didMessageChange :: "PRContext \<Rightarrow> error + bool" where
  "didMessageChange context =
     (if \<not> didBodyChange context then Inr False
      else case parseMessage (pr_body context) of
             Inl e \<Rightarrow> Inl e
           | Inr newMessage \<Rightarrow>
               (case changes_body_from context of
                  None \<Rightarrow> Inl TypeError
                | Some from' \<Rightarrow>
                    (case parseMessage from' of
                       Inl e \<Rightarrow> Inl e
                     | Inr oldMessage \<Rightarrow> Inr (newMessage \<noteq> oldMessage))))"

text \<open>
  \<open>isEqual\<close> of lodash on two objects of checklists: the same keys with equal values, in
  any order.
\<close>

definition isEqual :: "checklists \<Rightarrow> checklists \<Rightarrow> bool" where
  "isEqual a b =
     (list_all (\<lambda>(k, v). map_of b k = Some v) a \<and> list_all (\<lambda>(k, v). map_of a k = Some v) b)"

definition didChecklistsChange ::
  "('lc, 'x, 'gl, 'rel) deps \<Rightarrow> string \<Rightarrow> string \<Rightarrow> bool" where
  "didChecklistsChange D newMessage oldMessage =
     (\<not> isEqual (parseAutoChecklists D newMessage) (parseAutoChecklists D oldMessage))"

subsection \<open>The entry point\<close>

text \<open>
  What the handler does to the outside: the labels it adds and removes, the bodies it
  writes and the errors it logs, in order, and the error it throws, if any.
\<close>

datatype call =
    AddLabels "string list"
  | RemoveLabels "string list"
  | PullsUpdate string
  | LogError string "error option"

record outcome =
  calls :: "call list"
  thrown :: "error option"

definition throw :: "error \<Rightarrow> outcome" where
  "throw e = \<lparr>calls = [], thrown = Some e\<rparr>"

definition no_action :: outcome where
  "no_action = \<lparr>calls = [], thrown = None\<rparr>"

text \<open>
  The branch of a pull request that was just opened. The update of the body is not awaited:
  the call is issued and its failure is not seen by the handler.
\<close>

definition opened_flow ::
  "('lc, 'x, 'gl, 'rel) deps \<Rightarrow> PRContext \<Rightarrow> ('lc, 'x) Config \<Rightarrow> outcome" where
  "opened_flow D context config =
     (case createLabelChecklists D context config False of
        Inl e \<Rightarrow> throw e
      | Inr sections \<Rightarrow>
          (let body = dedent
                 (''\<newline>      '' @ pr_body context @ ''\<newline>      \<newline>      '' @
                  messageWrapper (onBoardingMessage sections) @ ''\<newline>    '')
           in \<lparr>calls = [PullsUpdate body], thrown = None\<rparr>))"

text \<open>The branch of an edit of the message by a user.\<close>

definition edited_flow ::
  "('lc, 'x, 'gl, 'rel) deps \<Rightarrow> PRContext \<Rightarrow> ('lc, 'x) Config \<Rightarrow> outcome" where
  "edited_flow D context config =
     (case sentByThisApp D context of
        Inl e \<Rightarrow> throw e
      | Inr True \<Rightarrow> no_action
      | Inr False \<Rightarrow>
     (case createLabelChecklists D context config False of
        Inl e \<Rightarrow> throw e
      | Inr sections \<Rightarrow>
     (let newMessage = onBoardingMessage sections
      in case overwriteMessage context newMessage of
        Inl e \<Rightarrow> throw e
      | Inr body \<Rightarrow>
     (case (case changes_body_from context of
              None \<Rightarrow> Inl TypeError
            | Some from' \<Rightarrow> parseMessage from') of
        Inl e \<Rightarrow> throw e
      | Inr oldMessage \<Rightarrow>
     (case (if didChecklistsChange D newMessage oldMessage
            then (case getRequiredLabelChanges D body config of
                    Inl e \<Rightarrow> Inl e
                  | Inr changes \<Rightarrow>
                      Inr ([AddLabels (labelsToAdd changes),
                            RemoveLabels (labelsToRemove changes)],
                           addLabelsToPR D context (labelsToAdd changes),
                           removeLabelsFromPR D context (labelsToRemove changes)))
            else Inr ([], None, None)) of
        Inl e \<Rightarrow> throw e
      | Inr (labelCalls, addLabelsError, removeLabelsError) \<Rightarrow>
     (let updateBodyError = pulls_update D context body;
          attempted = labelCalls @ [PullsUpdate body]
      in if addLabelsError \<noteq> None \<or> removeLabelsError \<noteq> None \<or> updateBodyError \<noteq> None
         then \<lparr>calls = attempted @
                  (if addLabelsError \<noteq> None
                   then [LogError ''Error when trying to add labels'' addLabelsError] else []) @
                  (if removeLabelsError \<noteq> None
                   then [LogError ''Error when trying to remove labels'' removeLabelsError]
                   else []) @
                  (if updateBodyError \<noteq> None
                   then [LogError ''Error when trying to update the body'' updateBodyError]
                   else []),
                thrown = Some (Error
                  ''Encountered issue after checklist edit, see log above for details'')\<rparr>
         else \<lparr>calls = attempted, thrown = None\<rparr>))))))"

text \<open>The branch of a label that was added or removed.\<close>

definition labeled_flow ::
  "('lc, 'x, 'gl, 'rel) deps \<Rightarrow> PRContext \<Rightarrow> ('lc, 'x) Config \<Rightarrow> outcome" where
  "labeled_flow D context config =
     (case sentByThisApp D context of
        Inl e \<Rightarrow> throw e
      | Inr True \<Rightarrow> no_action
      | Inr False \<Rightarrow>
     (case createLabelChecklists D context config True of
        Inl e \<Rightarrow> throw e
      | Inr sections \<Rightarrow>
     (let newMessage = onBoardingMessage sections
      in case parseMessage (pr_body context) of
        Inl e \<Rightarrow> throw e
      | Inr oldMessage \<Rightarrow>
          if didChecklistsChange D newMessage oldMessage
          then (case overwriteMessage context newMessage of
                  Inl e \<Rightarrow> throw e
                | Inr body \<Rightarrow>
                    (case pulls_update D context body of
                       Some updateBodyError \<Rightarrow>
                         \<lparr>calls = [PullsUpdate body,
                                   LogError ''Failed to update body after label updates'' None],
                          thrown = Some updateBodyError\<rparr>
                     | None \<Rightarrow> \<lparr>calls = [PullsUpdate body], thrown = None\<rparr>))
          else no_action)))"

text \<open>
  The handler. The condition of the second branch calls \<open>didMessageChange\<close> only when
  the first two conjuncts hold, and throws when it throws.
\<close>

definition handler :: "('lc, 'x, 'gl, 'rel) deps \<Rightarrow> PRContext \<Rightarrow> outcome" where
  "handler D context =
     (case getConfig D context of
        Inl e \<Rightarrow> throw e
      | Inr config \<Rightarrow>
          (let release = getLabelRelease D context config;
               onBoarding = (action context \<noteq> ''opened'' \<and> isOnboarding context)
           in if action context = ''opened'' \<and> hasReleaseLabels D release = False
              then opened_flow D context config
              else case (if onBoarding \<and> action context = ''edited''
                         then didMessageChange context else Inr False) of
                     Inl e \<Rightarrow> throw e
                   | Inr True \<Rightarrow> edited_flow D context config
                   | Inr False \<Rightarrow>
                       if onBoarding \<and>
                          (action context = ''labeled'' \<or> action context = ''unlabeled'')
                       then labeled_flow D context config
                       else no_action))"

subsection \<open>A reference instance of the collaborators\<close>

text \<open>
  Modelled from the spec: the checklist model of models/checklist (section 4.1 of the
  specification), which is not part of the sources. A checklist is rendered as a header
  comment that names the namespace and the key, followed by one line for each item; the
  line carries the check box, the identifier of the item in a comment, and the body. Parsing
  reads the text line by line, opens a checklist at every header of the namespace, adds
  the item lines to the checklist that is open, and skips every other line.
\<close>

definition renderItem :: "ChecklistItem \<Rightarrow> string" where
  "renderItem i =
     ''- ['' @ (if checked i then ''x'' else '' '') @ ''] <!-- '' @ item_id i @ '' --> '' @ item_body i"

definition spec_createChecklist :: "string \<Rightarrow> string \<Rightarrow> ChecklistItem list \<Rightarrow> string" where
  "spec_createChecklist namespace key items' =
     join ''\<newline>''
       ((''<!-- checklist:'' @ namespace @ '':'' @ key @ '' -->'') # map renderItem items')"

definition parseHeader :: "string \<Rightarrow> string \<Rightarrow> string option" where
  "parseHeader namespace line =
     (let open' = ''<!-- checklist:'' @ namespace @ '':''; close' = '' -->''
      in if prefix open' line \<and> suffix close' (drop (length open') line)
         then Some (take (length line - length open' - length close') (drop (length open') line))
         else None)"

definition parseItem :: "string \<Rightarrow> ChecklistItem option" where
  "parseItem line =
     (if prefix ''- [x] <!-- '' line \<or> prefix ''- [ ] <!-- '' line
      then (case split '' --> '' (drop 11 line) of
              i # b # bs \<Rightarrow>
                Some \<lparr>item_id = i, checked = prefix ''- [x]'' line,
                      item_body = join '' --> '' (b # bs)\<rparr>
            | _ \<Rightarrow> None)
      else None)"

fun addItem :: "string \<Rightarrow> ChecklistItem \<Rightarrow> checklists \<Rightarrow> checklists" where
  "addItem key i [] = []"
| "addItem key i ((k, c) # cs) =
     (if k = key then (k, c\<lparr>items := items c @ [i]\<rparr>) # cs else (k, c) # addItem key i cs)"

fun parseLines :: "string \<Rightarrow> string option \<Rightarrow> checklists \<Rightarrow> string list \<Rightarrow> checklists" where
  "parseLines namespace current acc [] = acc"
| "parseLines namespace current acc (line # lines) =
     (case parseHeader namespace line of
        Some key \<Rightarrow>
          parseLines namespace (Some key)
            (if key \<in> set (map fst acc) then acc
             else acc @ [(key, \<lparr>checklist_id = key, items = []\<rparr>)]) lines
      | None \<Rightarrow>
          (case (current, parseItem line) of
             (Some key, Some i) \<Rightarrow> parseLines namespace current (addItem key i acc) lines
           | _ \<Rightarrow> parseLines namespace current acc lines))"

definition spec_parseChecklists :: "string \<Rightarrow> string \<Rightarrow> checklists" where
  "spec_parseChecklists body namespace = parseLines namespace None [] (split ''\<newline>'' body)"

definition spec_moreThanOneItemChecked :: "ChecklistItem list \<Rightarrow> bool" where
  "spec_moreThanOneItemChecked items' = (1 < length (filter checked items'))"

text \<open>
  Modelled from the spec: the label catalog mapper of models/label (section 4.2), the release
  inspector, the configuration provider and the markdown helpers, which are not part of the
  sources. A label specification of the configuration is the name of the label; a role
  without a specification gets the name of the role. The fingerprint of a label is its name.
  The remote calls answer as the arguments of \<open>spec_deps\<close> say.
\<close>

definition spec_labelName :: "string \<Rightarrow> string option \<Rightarrow> string" where
  "spec_labelName role labelConfig = (case labelConfig of None \<Rightarrow> role | Some n \<Rightarrow> n)"

definition spec_skipReleaseLabels :: "(string, string list) Config \<Rightarrow> string list" where
  "spec_skipReleaseLabels config =
     (case labels config ''skip-release'' of None \<Rightarrow> [] | Some n \<Rightarrow> [n]) @ config_rest config"

definition spec_labelNames :: "(string, string list) Config \<Rightarrow> string list" where
  "spec_labelNames config =
     map (\<lambda>role. spec_labelName role (labels config role)) [''major'', ''minor'', ''patch''] @
     spec_skipReleaseLabels config"

definition spec_deps ::
  "(string, string list) Config \<Rightarrow> bool \<Rightarrow> string list \<Rightarrow> error option \<Rightarrow> error option \<Rightarrow>
   error option \<Rightarrow> (string, string list, string, string list) deps" where
  "spec_deps config sent attached addError removeError updateError =
     \<lparr>getConfig = (\<lambda>_. Inr config),
      getLabelRelease = (\<lambda>_ c. filter (\<lambda>l. l \<in> set (spec_labelNames c)) attached),
      hasReleaseLabels = (\<lambda>release. release \<noteq> []),
      sentByThisApp = (\<lambda>_. Inr sent),
      listLabelsForRepo = (\<lambda>_. Inr []),
      populateLabel = (\<lambda>role labelConfig _ _.
        Inr \<lparr>label_name = spec_labelName role labelConfig,
             label_description = None, label_color = None\<rparr>),
      getSkipReleaseLabelsFromConfig = spec_skipReleaseLabels,
      getLabelsOnPR = (\<lambda>_. attached),
      labelToString = (\<lambda>l. l),
      renderLabel = label_name,
      findLabelFromHash = (\<lambda>h c. find (\<lambda>n. n = h) (spec_labelNames c)),
      hash = (\<lambda>n. n),
      createChecklist = spec_createChecklist,
      parseChecklists = spec_parseChecklists,
      moreThanOneItemChecked = spec_moreThanOneItemChecked,
      sub = (\<lambda>s. ''<sub>'' @ s @ ''</sub>''),
      italics = (\<lambda>s. ''_'' @ s @ ''_''),
      bold = (\<lambda>s. ''**'' @ s @ ''**''),
      addLabelsToPR = (\<lambda>_ _. addError),
      removeLabelsFromPR = (\<lambda>_ _. removeError),
      pulls_update = (\<lambda>_ _. updateError)\<rparr>"

text \<open>
  The lines between the marker lines of the template of \<open>messageWrapper\<close>, before
  their indentation is removed.
\<close>

definition wrapped_lines :: "string \<Rightarrow> string list" where
  "wrapped_lines x = split ''\<newline>''
     (''    ---\<newline>\<newline>    '' @ x @
      ''\<newline>\<newline>    <sub>_Generated by [auto-it](https://github.com/apps/auto-it)_</sub>'')"

subsection \<open>Example inputs\<close>

text \<open>
  A configuration without label specifications, so that the labels are named after their
  roles, and two snapshots of a description: in the previous one the box of \<open>major\<close> is
  ticked, in the new one the boxes of \<open>major\<close> and \<open>minor\<close>.
\<close>

definition example_config :: "(string, string list) Config" where
  "example_config = \<lparr>labels = (\<lambda>_. None), config_rest = []\<rparr>"

definition example_previous_body :: string where
  "example_previous_body =
     ''Fixes a bug.\<newline>'' @ MessageStart @
     ''\<newline><!-- checklist:autobot:semver -->\<newline>- [x] <!-- major --> major\<newline>- [ ] <!-- minor --> minor\<newline>- [ ] <!-- patch --> patch\<newline>'' @
     MessageEnd"

definition example_body :: string where
  "example_body =
     ''Fixes a bug.\<newline>'' @ MessageStart @
     ''\<newline><!-- checklist:autobot:semver -->\<newline>- [x] <!-- major --> major\<newline>- [x] <!-- minor --> minor\<newline>- [ ] <!-- patch --> patch\<newline>'' @
     MessageEnd"

text \<open>
  A configuration that gives the skip-release role the label of the patch role, and a
  description whose two checklists both list that label.
\<close>

definition example_overlap_config :: "(string, string list) Config" where
  "example_overlap_config = \<lparr>labels = [''skip-release'' \<mapsto> ''patch''], config_rest = []\<rparr>"

definition example_overlap_body :: string where
  "example_overlap_body =
     ''Fixes a bug.\<newline>'' @ MessageStart @
     ''\<newline><!-- checklist:autobot:semver -->\<newline>- [ ] <!-- major --> major\<newline>- [ ] <!-- minor --> minor\<newline>- [x] <!-- patch --> patch\<newline><!-- checklist:autobot:skipRelease -->\<newline>- [ ] <!-- patch --> patch\<newline>'' @
     MessageEnd"

section \<open>Facts about strings\<close>

lemma split_nonempty: "sep \<noteq> [] \<Longrightarrow> split sep s \<noteq> []"
  by (simp add: split.simps split: option.splits)

lemma indexOf_Some_prefix:
  "indexOf sep s = Some i \<Longrightarrow> prefix sep (drop i s) \<and> i \<le> length s"
proof (induction s arbitrary: i)
  case Nil
  then show ?case by (auto split: if_splits)
next
  case (Cons c cs)
  then show ?case by (auto split: if_splits)
qed

lemma indexOf_Some_bound:
  "indexOf sep s = Some i \<Longrightarrow> i + length sep \<le> length s"
proof -
  assume "indexOf sep s = Some i"
  then have p: "prefix sep (drop i s)" and "i \<le> length s"
    using indexOf_Some_prefix by blast+
  from p have "length sep \<le> length (drop i s)"
    by (rule prefix_length_le)
  with \<open>i \<le> length s\<close> show ?thesis by simp
qed

lemma indexOf_Some_append:
  "indexOf sep s = Some i \<Longrightarrow> indexOf sep (s @ t) = Some i"
proof (induction s arbitrary: i)
  case Nil
  then show ?case by (cases t) (auto split: if_splits)
next
  case (Cons c cs)
  show ?case
  proof (cases "prefix sep (c # cs)")
    case True
    then have "prefix sep ((c # cs) @ t)" by (rule prefix_prefix)
    with True Cons.prems show ?thesis by simp
  next
    case False
    with Cons.prems obtain j where j: "indexOf sep cs = Some j" "i = Suc j"
      by auto
    have "\<not> prefix sep ((c # cs) @ t)"
    proof
      assume "prefix sep ((c # cs) @ t)"
      then have "prefix sep (c # cs) \<or> (\<exists>us. sep = (c # cs) @ us \<and> prefix us t)"
        by (simp only: prefix_append)
      with False obtain us where "sep = (c # cs) @ us"
        by blast
      moreover have "j + length sep \<le> length cs"
        using j(1) by (rule indexOf_Some_bound)
      ultimately show False by simp
    qed
    with j Cons.IH show ?thesis by simp
  qed
qed

lemma indexOf_None_sublist:
  "indexOf sep s = None \<longleftrightarrow> \<not> sublist sep s"
  by (induction s) (auto simp: sublist_Cons_right)

lemma prefix_marker_overlap:
  assumes "h \<notin> set t" and "prefix (h # t) (A @ (h # t) @ R)" and "A \<noteq> []"
  shows "prefix (h # t) A"
proof (rule ccontr)
  assume n: "\<not> prefix (h # t) A"
  from assms(2)
  have "prefix (h # t) A \<or> (\<exists>us. h # t = A @ us \<and> prefix us ((h # t) @ R))"
    by (simp only: prefix_append)
  with n obtain us where us: "h # t = A @ us" "prefix us ((h # t) @ R)"
    by blast
  from n us(1) have "us \<noteq> []" by auto
  with us(2) have "hd us = h" by (cases us) auto
  moreover from assms(3) us(1) obtain A' where "A = h # A'" "t = A' @ us"
    by (cases A) auto
  ultimately have "h \<in> set t" using \<open>us \<noteq> []\<close> by (cases us) auto
  with assms(1) show False by contradiction
qed

lemma indexOf_at_marker:
  assumes "h \<notin> set t" and "indexOf (h # t) A = None"
  shows "indexOf (h # t) (A @ (h # t) @ R) = Some (length A)"
  using assms(2)
proof (induction A)
  case Nil
  then show ?case by simp
next
  case (Cons c cs)
  from Cons.prems have np: "\<not> prefix (h # t) (c # cs)" and rest: "indexOf (h # t) cs = None"
    by (auto split: if_splits)
  have "\<not> prefix (h # t) ((c # cs) @ (h # t) @ R)"
    using prefix_marker_overlap [OF assms(1), of "c # cs" R] np by blast
  with Cons.IH [OF rest] show ?case by simp
qed

lemma split_no_marker:
  "sep \<noteq> [] \<Longrightarrow> indexOf sep s = None \<Longrightarrow> split sep s = [s]"
  by (simp add: split.simps)

lemma split_append_marker:
  assumes "h \<notin> set t"
  shows "split (h # t) (U @ (h # t) @ V) = split (h # t) U @ split (h # t) V"
proof (induction "h # t" U rule: split.induct)
  case (1 U)
  show ?case
  proof (cases "indexOf (h # t) U")
    case None
    then have "indexOf (h # t) (U @ (h # t) @ V) = Some (length U)"
      using assms indexOf_at_marker by blast
    then have "split (h # t) (U @ (h # t) @ V) = U # split (h # t) V"
      by (subst split.simps) simp
    with None show ?thesis by (simp add: split_no_marker)
  next
    case (Some i)
    then have i: "indexOf (h # t) (U @ (h # t) @ V) = Some i"
      by (rule indexOf_Some_append)
    have b: "i + length (h # t) \<le> length U"
      using Some by (rule indexOf_Some_bound)
    have "split (h # t) (U @ (h # t) @ V) =
          take i U # split (h # t) (drop (i + length (h # t)) U @ (h # t) @ V)"
      using i b by (subst split.simps) simp
    also have "\<dots> = take i U # (split (h # t) (drop (i + length (h # t)) U) @ split (h # t) V)"
      using "1" [OF _ Some] by simp
    also have "\<dots> = split (h # t) U @ split (h # t) V"
      using Some by (subst (2) split.simps) simp
    finally show ?thesis .
  qed
qed

lemma sublist_marker_append:
  assumes "h \<notin> set t" and "sublist (h # t) (X @ h # Y)"
  shows "sublist (h # t) X \<or> sublist (h # t) (h # Y)"
proof -
  from assms(2) have "sublist (h # t) X \<or> sublist (h # t) (h # Y) \<or>
      (\<exists>xs1 xs2. h # t = xs1 @ xs2 \<and> suffix xs1 X \<and> prefix xs2 (h # Y))"
    by (simp only: sublist_append)
  then consider "sublist (h # t) X" | "sublist (h # t) (h # Y)"
    | xs1 xs2 where "h # t = xs1 @ xs2" "suffix xs1 X" "prefix xs2 (h # Y)"
    by blast
  then show ?thesis
  proof cases
    case 3
    show ?thesis
    proof (cases "xs1 = [] \<or> xs2 = []")
      case True
      with 3 show ?thesis by auto
    next
      case False
      then obtain xs1' where "xs1 = h # xs1'" "t = xs1' @ xs2"
        using 3(1) by (cases xs1) auto
      moreover from False 3(3) have "hd xs2 = h" "xs2 \<noteq> []"
        by (cases xs2; auto)+
      ultimately have "h \<in> set t" by (cases xs2) auto
      with assms(1) show ?thesis by contradiction
    qed
  qed auto
qed

lemma sublist_marker_head:
  assumes "h \<notin> set t" and "h \<notin> set e" and "\<not> prefix (h # t) (h # e)" and "\<not> prefix (h # e) (h # t)"
    and "sublist (h # t) ((h # e) @ B)"
  shows "sublist (h # t) B"
proof -
  from assms(5) have "sublist (h # t) (h # e) \<or> sublist (h # t) B \<or>
      (\<exists>xs1 xs2. h # t = xs1 @ xs2 \<and> suffix xs1 (h # e) \<and> prefix xs2 B)"
    by (simp only: sublist_append)
  then consider "sublist (h # t) (h # e)" | "sublist (h # t) B"
    | xs1 xs2 where "h # t = xs1 @ xs2" "suffix xs1 (h # e)" "prefix xs2 B"
    by blast
  then show ?thesis
  proof cases
    case 1
    then have "prefix (h # t) (h # e) \<or> sublist (h # t) e"
      by (simp add: sublist_Cons_right)
    moreover have "\<not> sublist (h # t) e"
    proof
      assume "sublist (h # t) e"
      then have "set (h # t) \<subseteq> set e" by (rule set_mono_sublist)
      with assms(2) show False by simp
    qed
    ultimately show ?thesis using assms(3) by blast
  next
    case 2
    then show ?thesis .
  next
    case 3
    show ?thesis
    proof (cases "xs1 = []")
      case True
      with 3 show ?thesis by auto
    next
      case False
      then obtain xs1' where x: "xs1 = h # xs1'" using 3(1) by (cases xs1) auto
      from 3(2) have "xs1 = h # e \<or> suffix xs1 e"
        by (simp add: suffix_Cons)
      moreover have "\<not> suffix xs1 e"
      proof
        assume "suffix xs1 e"
        then have "set xs1 \<subseteq> set e" by (rule set_mono_suffix)
        with x assms(2) show False by simp
      qed
      ultimately have "xs1 = h # e" by blast
      with 3(1) have "prefix (h # e) (h # t)" by (metis prefixI)
      with assms(4) show ?thesis by contradiction
    qed
  qed
qed

lemma MessageStart_Cons: "MessageStart = CHR ''<'' # tl MessageStart"
  by (simp add: MessageStart_def)

lemma MessageEnd_Cons: "MessageEnd = CHR ''<'' # tl MessageEnd"
  by (simp add: MessageEnd_def)

lemma MessageStart_tl: "CHR ''<'' \<notin> set (tl MessageStart)"
  by (simp add: MessageStart_def)

lemma MessageEnd_tl: "CHR ''<'' \<notin> set (tl MessageEnd)"
  by (simp add: MessageEnd_def)

lemma split_MessageStart_append:
  "split MessageStart (U @ MessageStart @ V) = split MessageStart U @ split MessageStart V"
  using split_append_marker [OF MessageStart_tl, of U V] MessageStart_Cons by simp

lemma split_MessageEnd_append:
  "split MessageEnd (U @ MessageEnd @ V) = split MessageEnd U @ split MessageEnd V"
  using split_append_marker [OF MessageEnd_tl, of U V] MessageEnd_Cons by simp

lemma split_MessageStart_none: "\<not> sublist MessageStart s \<Longrightarrow> split MessageStart s = [s]"
  by (rule split_no_marker) (simp_all add: MessageStart_def indexOf_None_sublist)

lemma split_MessageEnd_none: "\<not> sublist MessageEnd s \<Longrightarrow> split MessageEnd s = [s]"
  by (rule split_no_marker) (simp_all add: MessageEnd_def indexOf_None_sublist)

lemma sublist_MessageStart_End:
  assumes "sublist MessageStart (X @ MessageEnd @ B)"
  shows "sublist MessageStart X \<or> sublist MessageStart B"
proof -
  have "sublist (CHR ''<'' # tl MessageStart) (X @ CHR ''<'' # (tl MessageEnd @ B))"
    using assms MessageStart_Cons MessageEnd_Cons by (metis append_Cons)
  then have "sublist MessageStart X \<or> sublist MessageStart (MessageEnd @ B)"
    using sublist_marker_append [OF MessageStart_tl] MessageStart_Cons MessageEnd_Cons
    by (metis append_Cons)
  moreover have "sublist MessageStart (MessageEnd @ B) \<Longrightarrow> sublist MessageStart B"
    using sublist_marker_head [OF MessageStart_tl MessageEnd_tl, of B]
    by (simp add: MessageStart_def MessageEnd_def)
  ultimately show ?thesis by blast
qed

lemma first_two_append:
  assumes "xs \<noteq> []" and "ys \<noteq> []"
  shows "\<exists>a b r r'. xs @ ys @ zs = a # b # r \<and> xs @ ys = a # b # r'"
proof (cases xs)
  case Nil
  with assms(1) show ?thesis by simp
next
  case (Cons x xs')
  then show ?thesis using assms(2) by (cases xs'; cases ys) auto
qed

lemma split_MessageStart_nonempty: "split MessageStart s \<noteq> []"
  by (rule split_nonempty) (simp add: MessageStart_def)

lemma split_MessageEnd_nonempty: "split MessageEnd s \<noteq> []"
  by (rule split_nonempty) (simp add: MessageEnd_def)

lemma join_Cons: "ys \<noteq> [] \<Longrightarrow> join sep (x # ys) = x @ sep @ join sep ys"
  by (cases ys) auto

lemma join_append:
  "xs \<noteq> [] \<Longrightarrow> ys \<noteq> [] \<Longrightarrow> join sep (xs @ ys) = join sep xs @ sep @ join sep ys"
proof (induction sep xs rule: join.induct)
  case (1 sep)
  then show ?case by simp
next
  case (2 sep x)
  then show ?case by (simp add: join_Cons)
next
  case (3 sep x y ys)
  then show ?case by simp
qed

lemma indent_of_pos: "indent_of l = Some i \<Longrightarrow> 1 \<le> i"
  by (auto simp: indent_of_def Let_def split: if_splits) (metis length_greater_0_conv less_eq_Suc_le One_nat_def)

lemma foldl_mindent_Some:
  "1 \<le> j \<Longrightarrow> \<exists>k. foldl mindent_step (Some j) ls = Some k \<and> 1 \<le> k \<and> k \<le> j"
proof (induction ls arbitrary: j)
  case Nil
  then show ?case by simp
next
  case (Cons l ls)
  show ?case
  proof (cases "indent_of l")
    case None
    then show ?thesis using Cons by (simp add: mindent_step_def)
  next
    case (Some i)
    then have "1 \<le> min j i" using Cons.prems indent_of_pos by auto
    from Cons.IH [OF this] obtain k where
      k: "foldl mindent_step (Some (min j i)) ls = Some k" "1 \<le> k" "k \<le> min j i" by blast
    have "mindent_step (Some j) l = Some (min j i)"
      using Some by (simp add: mindent_step_def)
    with k show ?thesis by simp
  qed
qed

lemma replaceAll_prefix_free:
  "a \<notin> set p \<Longrightarrow> replaceAll [a, b] rep (p @ s) = p @ replaceAll [a, b] rep s"
  by (induction p) auto

lemma replaceAll_free: "a \<notin> set p \<Longrightarrow> replaceAll [a, b] rep p = p"
  using replaceAll_prefix_free [of a p b rep "[]"] by simp

lemma replaceAll_suffix_free:
  assumes "a \<notin> set q" and "q = [] \<or> hd q \<noteq> b"
  shows "replaceAll [a, b] rep (s @ q) = replaceAll [a, b] rep s @ q"
proof (induction "[a, b]" rep s rule: replaceAll.induct)
  case (1 rep)
  then show ?case using assms(1) by (simp add: replaceAll_free)
next
  case (2 rep c cs)
  show ?case
  proof (cases "prefix [a, b] (c # cs)")
    case True
    then obtain cs' where cs: "c = a" "cs = b # cs'" by (cases cs) auto
    with 2 True show ?thesis by simp
  next
    case False
    have "\<not> prefix [a, b] (c # cs @ q)"
    proof
      assume p: "prefix [a, b] (c # cs @ q)"
      show False
      proof (cases cs)
        case Nil
        with p assms show ?thesis by (cases q) auto
      next
        case (Cons d ds)
        with p False show ?thesis by auto
      qed
    qed
    with 2 False show ?thesis by auto
  qed
qed

lemma trim_core:
  assumes "list_all js_space u" and "list_all js_space v" and "\<not> js_space c" and "\<not> js_space d"
  shows "trim (u @ c # mid @ d # v) = c # mid @ [d]"
proof -
  have "dropWhile js_space (u @ c # mid @ d # v) = dropWhile js_space (c # mid @ d # v)"
    by (rule dropWhile_append2) (use assms(1) in \<open>simp add: list_all_iff\<close>)
  then have 1: "dropWhile js_space (u @ c # mid @ d # v) = c # mid @ d # v"
    using assms(3) by simp
  have "dropWhile js_space (rev v @ d # rev mid @ [c]) = dropWhile js_space (d # rev mid @ [c])"
    by (rule dropWhile_append2) (use assms(2) in \<open>simp add: list_all_iff\<close>)
  then have 2: "dropWhile js_space (rev (c # mid @ d # v)) = d # rev mid @ [c]"
    using assms(4) by simp
  show ?thesis unfolding trim_def 1 2 by simp
qed

lemma split_nl_append:
  "split ''\<newline>'' (U @ CHR ''\<newline>'' # V) = split ''\<newline>'' U @ split ''\<newline>'' V"
  using split_append_marker [of "CHR ''\<newline>''" "[]" U V] by simp

lemma split_nl_none: "CHR ''\<newline>'' \<notin> set s \<Longrightarrow> split ''\<newline>'' s = [s]"
proof (rule split_no_marker)
  assume "CHR ''\<newline>'' \<notin> set s"
  then have "\<not> sublist ''\<newline>'' s"
    using set_mono_sublist by fastforce
  then show "indexOf ''\<newline>'' s = None" by (simp add: indexOf_None_sublist)
qed simp

lemma drop_indent:
  assumes "k \<le> 4"
  shows "drop k (''    '' @ s) = replicate (4 - k) (CHR '' '') @ s"
proof -
  from assms consider "k = 0" | "k = 1" | "k = 2" | "k = 3" | "k = 4" by linarith
  then show ?thesis by cases (simp_all add: numeral_eq_Suc)
qed

lemma messageWrapper_form:
  "\<exists>k\<le>3. messageWrapper x =
     MessageStart @
     replaceAll [CHR 0x5C, CHR ''n''] ''\<newline>''
       ('' \<newline>'' @ join ''\<newline>'' (map (strip_line (4 - k)) (wrapped_lines x)) @
        ''\<newline>'' @ replicate k (CHR '' '')) @
     MessageEnd"
proof -
  let ?nl = "CHR ''\<newline>''"
  let ?L1 = "''    '' @ MessageStart @ '' ''"
  let ?Ln = "''    '' @ MessageEnd @ '' ''"
  let ?M = "''    ---\<newline>\<newline>    '' @ x @
      ''\<newline>\<newline>    <sub>_Generated by [auto-it](https://github.com/apps/auto-it)_</sub>''"
  let ?T = "[] @ ?nl # ?L1 @ ?nl # ?M @ ?nl # ?Ln @ ?nl # []"
  have arg: "messageWrapper x = dedent ?T"
    by (simp add: messageWrapper_def)
  have L1: "split ''\<newline>'' ?L1 = [?L1]"
    by (rule split_nl_none) (simp add: MessageStart_def)
  have Ln: "split ''\<newline>'' ?Ln = [?Ln]"
    by (rule split_nl_none) (simp add: MessageEnd_def)
  have e: "split ''\<newline>'' [] = [[]]"
    by (simp add: split.simps)
  have lines: "split ''\<newline>'' ?T = [[], ?L1] @ wrapped_lines x @ [?Ln, []]"
    unfolding split_nl_append L1 Ln e wrapped_lines_def by simp
  have "indent_of [] = None"
    by (simp add: indent_of_def)
  moreover have "indent_of ?L1 = Some 4"
    by (simp add: indent_of_def js_space_def MessageStart_def)
  ultimately have "foldl mindent_step None ([[], ?L1] @ wrapped_lines x @ [?Ln, []]) =
      foldl mindent_step (Some 4) (wrapped_lines x @ [?Ln, []])"
    by (simp add: mindent_step_def)
  then obtain m where m: "foldl mindent_step None (split ''\<newline>'' ?T) = Some m" "1 \<le> m" "m \<le> 4"
    using foldl_mindent_Some [of 4 "wrapped_lines x @ [?Ln, []]"] lines by auto
  define k where "k = 4 - m"
  have k: "k \<le> 3" "4 - k = m" using m by (simp_all add: k_def)
  define J where "J = join ''\<newline>'' (map (strip_line m) (wrapped_lines x))"
  define sp where "sp = replicate k (CHR '' '')"
  have s1: "strip_line m ?L1 = sp @ MessageStart @ '' ''"
    using drop_indent [OF m(3), of "MessageStart @ '' ''"] by (simp add: strip_line_def sp_def k_def)
  have sn: "strip_line m ?Ln = sp @ MessageEnd @ '' ''"
    using drop_indent [OF m(3), of "MessageEnd @ '' ''"] by (simp add: strip_line_def sp_def k_def)
  have ne: "wrapped_lines x \<noteq> []"
    unfolding wrapped_lines_def by (rule split_nonempty) simp
  have "join ''\<newline>'' (map (strip_line m) (split ''\<newline>'' ?T)) =
        join ''\<newline>'' ([[], sp @ MessageStart @ '' ''] @ map (strip_line m) (wrapped_lines x) @
          [sp @ MessageEnd @ '' '', []])"
    unfolding lines using s1 sn by (simp add: strip_line_def)
  also have "\<dots> = ?nl # sp @ MessageStart @ '' '' @ ?nl # J @ ?nl # sp @ MessageEnd @ '' '' @ [?nl]"
    using ne by (simp add: join_append join_Cons J_def)
  finally have joined: "join ''\<newline>'' (map (strip_line m) (split ''\<newline>'' ?T)) =
      ?nl # sp @ MessageStart @ '' '' @ ?nl # J @ ?nl # sp @ MessageEnd @ '' '' @ [?nl]" .
  have sp_space: "list_all js_space sp"
    by (simp add: sp_def list_all_iff js_space_def)
  have "?nl # sp @ MessageStart @ '' '' @ ?nl # J @ ?nl # sp @ MessageEnd @ '' '' @ [?nl] =
        (?nl # sp) @ CHR ''<'' # (tl MessageStart @ '' '' @ ?nl # J @ ?nl # sp @ butlast MessageEnd) @
        CHR ''>'' # '' \<newline>''"
    by (simp add: MessageStart_def MessageEnd_def)
  moreover have "trim ((?nl # sp) @ CHR ''<'' # (tl MessageStart @ '' '' @ ?nl # J @ ?nl # sp @ butlast MessageEnd) @
        CHR ''>'' # '' \<newline>'') =
      CHR ''<'' # (tl MessageStart @ '' '' @ ?nl # J @ ?nl # sp @ butlast MessageEnd) @ [CHR ''>'']"
    by (rule trim_core) (use sp_space in \<open>simp_all add: js_space_def\<close>)
  ultimately have trimmed:
    "trim (?nl # sp @ MessageStart @ '' '' @ ?nl # J @ ?nl # sp @ MessageEnd @ '' '' @ [?nl]) =
      MessageStart @ ('' '' @ ?nl # J @ ?nl # sp) @ MessageEnd"
    by (simp add: MessageStart_def MessageEnd_def)
  have "dedent ?T = replaceAll [CHR 0x5C, CHR ''n''] ''\<newline>''
      (MessageStart @ ('' '' @ ?nl # J @ ?nl # sp) @ MessageEnd)"
    unfolding dedent_def Let_def m(1) option.case joined trimmed ..
  also have "\<dots> = MessageStart @ replaceAll [CHR 0x5C, CHR ''n''] ''\<newline>''
      (('' '' @ ?nl # J @ ?nl # sp) @ MessageEnd)"
    by (rule replaceAll_prefix_free) (simp add: MessageStart_def)
  also have "\<dots> = MessageStart @ replaceAll [CHR 0x5C, CHR ''n''] ''\<newline>''
      ('' '' @ ?nl # J @ ?nl # sp) @ MessageEnd"
    using replaceAll_suffix_free [of "CHR 0x5C" MessageEnd "CHR ''n''" "''\<newline>''"
        "'' '' @ ?nl # J @ ?nl # sp"]
    by (simp add: MessageEnd_def)
  finally show ?thesis
    using arg k by (auto simp: J_def sp_def intro!: exI [of _ k])
qed

lemma prefix_replaceAll_nl:
  "CHR ''\<newline>'' \<notin> set p \<Longrightarrow> prefix p (replaceAll [a, b] ''\<newline>'' s) \<Longrightarrow> prefix p s"
proof (induction "[a, b]" "''\<newline>''" s arbitrary: p rule: replaceAll.induct)
  case 1
  then show ?case by simp
next
  case (2 c cs)
  show ?case
  proof (cases p)
    case Nil
    then show ?thesis by simp
  next
    case (Cons d ds)
    show ?thesis
    proof (cases "prefix [a, b] (c # cs)")
      case True
      with "2.prems" Cons show ?thesis by auto
    next
      case False
      with "2.prems" Cons have "d = c" "prefix ds (replaceAll [a, b] ''\<newline>'' cs)"
        "CHR ''\<newline>'' \<notin> set ds"
        by auto
      with "2.hyps"(2) [of ds] False Cons show ?thesis by auto
    qed
  qed
qed

lemma sublist_replaceAll_nl:
  "CHR ''\<newline>'' \<notin> set p \<Longrightarrow> sublist p (replaceAll [a, b] ''\<newline>'' s) \<Longrightarrow> sublist p s"
proof (induction "[a, b]" "''\<newline>''" s rule: replaceAll.induct)
  case 1
  then show ?case by simp
next
  case (2 c cs)
  show ?case
  proof (cases "prefix p (replaceAll [a, b] ''\<newline>'' (c # cs))")
    case True
    then have "prefix p (c # cs)"
      using "2.prems"(1) by (rule prefix_replaceAll_nl [rotated])
    then show ?thesis by (rule prefix_imp_sublist)
  next
    case np: False
    show ?thesis
    proof (cases "prefix [a, b] (c # cs)")
      case True
      with "2.prems" np have "sublist p (replaceAll [a, b] ''\<newline>'' (drop 1 cs))"
        by (auto simp: sublist_Cons_right)
      with "2.hyps"(1) True "2.prems"(1) have "sublist p (drop 1 cs)" by simp
      moreover have "sublist (drop 1 cs) (c # cs)"
        by (metis suffix_drop suffix_imp_sublist sublist_Cons_right)
      ultimately show ?thesis by (rule sublist_order.order_trans)
    next
      case False
      with "2.prems" np have "sublist p (replaceAll [a, b] ''\<newline>'' cs)"
        by (auto simp: sublist_Cons_right)
      with "2.hyps"(2) False "2.prems"(1) have "sublist p cs" by simp
      then show ?thesis by (simp add: sublist_Cons_right)
    qed
  qed
qed

lemma sublist_nl_append:
  assumes "CHR ''\<newline>'' \<notin> set p" and "sublist p (U @ CHR ''\<newline>'' # V)"
  shows "sublist p U \<or> sublist p V"
proof -
  from assms(2) have "sublist p U \<or> sublist p (CHR ''\<newline>'' # V) \<or>
      (\<exists>xs1 xs2. p = xs1 @ xs2 \<and> suffix xs1 U \<and> prefix xs2 (CHR ''\<newline>'' # V))"
    by (simp only: sublist_append)
  then consider "sublist p U" | "sublist p (CHR ''\<newline>'' # V)"
    | xs1 xs2 where "p = xs1 @ xs2" "suffix xs1 U" "prefix xs2 (CHR ''\<newline>'' # V)"
    by blast
  then show ?thesis
  proof cases
    case 1
    then show ?thesis by simp
  next
    case 2
    then have "prefix p (CHR ''\<newline>'' # V) \<or> sublist p V"
      by (simp add: sublist_Cons_right)
    moreover have "prefix p (CHR ''\<newline>'' # V) \<Longrightarrow> p = []"
      using assms(1) by (cases p) auto
    ultimately show ?thesis by auto
  next
    case 3
    have "xs2 = []"
      using 3(1,3) assms(1) by (cases xs2) auto
    with 3 show ?thesis by (auto intro: suffix_imp_sublist)
  qed
qed

lemma sublist_join_nl:
  "CHR ''\<newline>'' \<notin> set p \<Longrightarrow> sublist p (join ''\<newline>'' ls) \<Longrightarrow> p = [] \<or> (\<exists>l\<in>set ls. sublist p l)"
proof (induction "''\<newline>''" ls rule: join.induct)
  case 1
  then show ?case by simp
next
  case (2 x)
  then show ?case by simp
next
  case (3 x y ys)
  from "3.prems" have "sublist p x \<or> sublist p (join ''\<newline>'' (y # ys))"
    using sublist_nl_append [of p x] by simp
  with 3 show ?case by auto
qed

lemma set_split_sublist: "sep \<noteq> [] \<Longrightarrow> l \<in> set (split sep s) \<Longrightarrow> sublist l s"
proof (induction sep s rule: split.induct)
  case (1 sep s)
  show ?case
  proof (cases "indexOf sep s")
    case None
    with 1 show ?thesis by (simp add: split.simps)
  next
    case (Some i)
    have "split sep s = take i s # split sep (drop (i + length sep) s)"
      using Some "1.prems"(1) by (subst split.simps) simp
    with "1.prems" have "l = take i s \<or> l \<in> set (split sep (drop (i + length sep) s))"
      by simp
    then show ?thesis
    proof
      assume "l = take i s"
      then show ?thesis by (metis prefix_imp_sublist take_is_prefix)
    next
      assume "l \<in> set (split sep (drop (i + length sep) s))"
      with "1.IH" [OF "1.prems"(1) Some "1.prems"(1)] have "sublist l (drop (i + length sep) s)" .
      moreover have "sublist (drop (i + length sep) s) s"
        by (metis suffix_drop suffix_imp_sublist)
      ultimately show ?thesis by (rule sublist_order.order_trans)
    qed
  qed
qed

lemma sublist_strip_line: "sublist p (strip_line k l) \<Longrightarrow> sublist p l"
proof -
  assume a: "sublist p (strip_line k l)"
  have "strip_line k l = l \<or> strip_line k l = drop k l"
    by (simp add: strip_line_def split: list.splits)
  moreover have "sublist (drop k l) l"
    by (metis suffix_drop suffix_imp_sublist)
  ultimately show ?thesis using a by (auto intro: sublist_order.order_trans)
qed

lemma sublist_spaces:
  "sublist p (replicate k (CHR '' '')) \<Longrightarrow> set p \<subseteq> {CHR '' ''}"
  using set_mono_sublist [of p "replicate k (CHR '' '')"] by auto

lemma sublist_wrapped_lines:
  assumes "CHR ''\<newline>'' \<notin> set p" and "l \<in> set (wrapped_lines x)" and "sublist p l"
  shows "sublist p ''    ---'' \<or> sublist p (''    '' @ x) \<or>
         sublist p ''    <sub>_Generated by [auto-it](https://github.com/apps/auto-it)_</sub>''"
proof -
  define rule' where "rule' = ''    ---''"
  define footer where
    "footer = ''    <sub>_Generated by [auto-it](https://github.com/apps/auto-it)_</sub>''"
  define body where "body = ''    '' @ x"
  define nl where "nl = CHR ''\<newline>''"
  have M: "''    ---\<newline>\<newline>    '' @ x @
      ''\<newline>\<newline>    <sub>_Generated by [auto-it](https://github.com/apps/auto-it)_</sub>'' =
      rule' @ nl # [] @ nl # body @ nl # [] @ nl # footer"
    by (simp add: rule'_def footer_def body_def nl_def)
  have step: "sublist p U \<or> sublist p V" if "sublist p (U @ nl # V)" for U V
    using that sublist_nl_append [OF assms(1)] by (simp add: nl_def)
  have "sublist l (rule' @ nl # [] @ nl # body @ nl # [] @ nl # footer)"
    using assms(2) set_split_sublist [of "''\<newline>''" l] unfolding wrapped_lines_def M by simp
  with assms(3) have "sublist p (rule' @ nl # [] @ nl # body @ nl # [] @ nl # footer)"
    by (rule sublist_order.order_trans)
  then have "sublist p rule' \<or> sublist p ([] @ nl # body @ nl # [] @ nl # footer)"
    by (rule step)
  then have "sublist p rule' \<or> sublist p [] \<or> sublist p (body @ nl # [] @ nl # footer)"
    using step [of "[]"] by blast
  then have "sublist p rule' \<or> sublist p [] \<or> sublist p body \<or> sublist p ([] @ nl # footer)"
    using step [of body] by blast
  then have "sublist p rule' \<or> sublist p [] \<or> sublist p body \<or> sublist p footer"
    using step [of "[]" footer] by blast
  moreover have "sublist p [] \<Longrightarrow> sublist p body"
    by simp
  ultimately have "sublist p rule' \<or> sublist p body \<or> sublist p footer"
    by blast
  then show ?thesis
    unfolding rule'_def body_def footer_def .
qed

lemma MessageStart_not_in_footer:
  "\<not> sublist MessageStart ''    <sub>_Generated by [auto-it](https://github.com/apps/auto-it)_</sub>''"
  by code_simp

lemma MessageEnd_not_in_footer:
  "\<not> sublist MessageEnd ''    <sub>_Generated by [auto-it](https://github.com/apps/auto-it)_</sub>''"
  by code_simp

lemma messageWrapper_markers:
  "\<exists>m. messageWrapper x = MessageStart @ m @ MessageEnd \<and>
     (sublist MessageStart m \<longrightarrow> sublist MessageStart x) \<and>
     (sublist MessageEnd m \<longrightarrow> sublist MessageEnd x)"
proof -
  obtain k where k: "k \<le> 3" "messageWrapper x =
     MessageStart @
     replaceAll [CHR 0x5C, CHR ''n''] ''\<newline>''
       ('' \<newline>'' @ join ''\<newline>'' (map (strip_line (4 - k)) (wrapped_lines x)) @
        ''\<newline>'' @ replicate k (CHR '' '')) @
     MessageEnd"
    using messageWrapper_form by blast
  define J where "J = join ''\<newline>'' (map (strip_line (4 - k)) (wrapped_lines x))"
  define sp where "sp = replicate k (CHR '' '')"
  define m where "m = replaceAll [CHR 0x5C, CHR ''n''] ''\<newline>''
       ('' '' @ CHR ''\<newline>'' # J @ CHR ''\<newline>'' # sp)"
  define footer where
    "footer = ''    <sub>_Generated by [auto-it](https://github.com/apps/auto-it)_</sub>''"
  have w: "messageWrapper x = MessageStart @ m @ MessageEnd"
    unfolding k(2) m_def J_def sp_def by simp
  have key: "sublist p x"
    if p: "CHR ''\<newline>'' \<notin> set p" "hd p = CHR ''<''" "p \<noteq> []" "\<not> sublist p footer"
      and s: "sublist p m" for p
  proof -
    have nosp: "\<not> set p \<subseteq> {CHR '' ''}"
      using p(2,3) by (cases p) auto
    from s have "sublist p ('' '' @ CHR ''\<newline>'' # J @ CHR ''\<newline>'' # sp)"
      unfolding m_def by (rule sublist_replaceAll_nl [OF p(1)])
    then have "sublist p '' '' \<or> sublist p (J @ CHR ''\<newline>'' # sp)"
      by (rule sublist_nl_append [OF p(1)])
    then have "sublist p '' '' \<or> sublist p J \<or> sublist p sp"
      using sublist_nl_append [OF p(1), of J sp] by blast
    moreover have "\<not> sublist p '' ''"
    proof
      assume "sublist p '' ''"
      then have "set p \<subseteq> set '' ''" by (rule set_mono_sublist)
      with nosp show False by simp
    qed
    moreover have "\<not> sublist p sp"
      using nosp sublist_spaces unfolding sp_def by blast
    ultimately have "sublist p J"
      by blast
    then have "\<exists>l\<in>set (map (strip_line (4 - k)) (wrapped_lines x)). sublist p l"
      unfolding J_def using sublist_join_nl [OF p(1)] p(3) by blast
    then obtain l where l: "l \<in> set (wrapped_lines x)" "sublist p (strip_line (4 - k) l)"
      by auto
    from l(2) have "sublist p l"
      by (rule sublist_strip_line)
    with l(1) have "sublist p ''    ---'' \<or> sublist p (''    '' @ x) \<or> sublist p footer"
      unfolding footer_def by (rule sublist_wrapped_lines [OF p(1)])
    moreover have "\<not> sublist p ''    ---''"
    proof
      assume "sublist p ''    ---''"
      then have "set p \<subseteq> set ''    ---''" by (rule set_mono_sublist)
      with p(2,3) show False by (cases p) auto
    qed
    ultimately have "sublist p (''    '' @ x)"
      using p(4) by blast
    then show ?thesis
      using p(2,3) by (cases p) (simp_all add: sublist_Cons_right)
  qed
  have "\<not> sublist MessageStart footer"
    unfolding footer_def by (rule MessageStart_not_in_footer)
  then have 1: "sublist MessageStart m \<Longrightarrow> sublist MessageStart x"
    by (rule key [rotated 3]) (simp_all add: MessageStart_def)
  have "\<not> sublist MessageEnd footer"
    unfolding footer_def by (rule MessageEnd_not_in_footer)
  then have 2: "sublist MessageEnd m \<Longrightarrow> sublist MessageEnd x"
    by (rule key [rotated 3]) (simp_all add: MessageEnd_def)
  from w 1 2 show ?thesis
    by (intro exI [of _ m] conjI impI)
qed

lemma prefix_marker_straddle:
  assumes "h \<notin> set t" and "prefix (h # t) (A @ h # R)" and "A \<noteq> []"
  shows "prefix (h # t) A"
proof (rule ccontr)
  assume n: "\<not> prefix (h # t) A"
  from assms(2)
  have "prefix (h # t) A \<or> (\<exists>us. h # t = A @ us \<and> prefix us (h # R))"
    by (simp only: prefix_append)
  with n obtain us where us: "h # t = A @ us" "prefix us (h # R)"
    by blast
  from n us(1) have "us \<noteq> []" by auto
  with us(2) have "hd us = h" by (cases us) auto
  moreover from assms(3) us(1) obtain A' where "A = h # A'" "t = A' @ us"
    by (cases A) auto
  ultimately have "h \<in> set t" using \<open>us \<noteq> []\<close> by (cases us) auto
  with assms(1) show False by contradiction
qed

lemma indexOf_skip:
  "h \<notin> set e \<Longrightarrow> indexOf (h # t) (e @ Y) = map_option (\<lambda>j. length e + j) (indexOf (h # t) Y)"
proof (induction e)
  case Nil
  then show ?case by (simp add: option.map_ident)
next
  case (Cons c e)
  then show ?case by (simp add: option.map_comp comp_def)
qed

lemma indexOf_barrier:
  assumes h: "h \<notin> set t" "h \<notin> set e"
    and np: "\<not> prefix (h # t) (h # e)" "\<not> prefix (h # e) (h # t)"
    and none: "indexOf (h # t) X = None"
  shows "indexOf (h # t) (X @ (h # e) @ Y) =
         map_option (\<lambda>j. length X + length (h # e) + j) (indexOf (h # t) Y)"
  using none
proof (induction X)
  case Nil
  have "\<not> prefix (h # t) (h # e @ Y)"
  proof
    assume "prefix (h # t) (h # e @ Y)"
    then have "prefix t (e @ Y)" by simp
    then have "prefix t e \<or> (\<exists>us. t = e @ us \<and> prefix us Y)"
      by (simp only: prefix_append)
    with np show False by auto
  qed
  then show ?case
    using indexOf_skip [OF h(2), of t Y] by (simp add: option.map_comp comp_def)
next
  case (Cons c X)
  from Cons.prems have npc: "\<not> prefix (h # t) (c # X)" and rest: "indexOf (h # t) X = None"
    by (auto split: if_splits)
  have "\<not> prefix (h # t) ((c # X) @ h # (e @ Y))"
    using prefix_marker_straddle [OF h(1), of "c # X" "e @ Y"] npc by blast
  then have "\<not> prefix (h # t) (c # (X @ (h # e) @ Y))"
    by simp
  then have "indexOf (h # t) ((c # X) @ (h # e) @ Y) =
      map_option Suc (indexOf (h # t) (X @ (h # e) @ Y))"
    by (simp del: prefix_code)
  with Cons.IH [OF rest] show ?case
    by (simp add: option.map_comp comp_def)
qed

lemma split_barrier:
  assumes h: "h \<notin> set t" "h \<notin> set e"
    and np: "\<not> prefix (h # t) (h # e)" "\<not> prefix (h # e) (h # t)"
  shows "split (h # t) (X @ (h # e) @ Y) =
         butlast (split (h # t) X) @
         [last (split (h # t) X) @ (h # e) @ hd (split (h # t) Y)] @
         tl (split (h # t) Y)"
proof (induction "h # t" X rule: split.induct)
  case (1 X)
  show ?case
  proof (cases "indexOf (h # t) X")
    case None
    then have X: "split (h # t) X = [X]"
      by (simp add: split_no_marker)
    have i: "indexOf (h # t) (X @ (h # e) @ Y) =
        map_option (\<lambda>j. length X + length (h # e) + j) (indexOf (h # t) Y)"
      using h np None by (rule indexOf_barrier)
    show ?thesis
    proof (cases "indexOf (h # t) Y")
      case None
      with i have "split (h # t) (X @ (h # e) @ Y) = [X @ (h # e) @ Y]"
        by (simp add: split_no_marker)
      moreover from None have "split (h # t) Y = [Y]"
        by (simp add: split_no_marker)
      ultimately show ?thesis using X by simp
    next
      case (Some j)
      then have Y: "split (h # t) Y = take j Y # split (h # t) (drop (j + length (h # t)) Y)"
        by (subst split.simps) simp
      from i Some have "indexOf (h # t) (X @ (h # e) @ Y) = Some (length X + length (h # e) + j)"
        by simp
      then have "split (h # t) (X @ (h # e) @ Y) =
          take (length X + length (h # e) + j) (X @ (h # e) @ Y) #
          split (h # t) (drop (length X + length (h # e) + j + length (h # t)) (X @ (h # e) @ Y))"
        by (subst split.simps) simp
      also have "\<dots> = (X @ (h # e) @ take j Y) # split (h # t) (drop (j + length (h # t)) Y)"
        by simp
      finally show ?thesis using X Y by simp
    qed
  next
    case (Some i)
    then have i: "indexOf (h # t) (X @ (h # e) @ Y) = Some i"
      by (rule indexOf_Some_append)
    have b: "i + length (h # t) \<le> length X"
      using Some by (rule indexOf_Some_bound)
    let ?X' = "drop (i + length (h # t)) X"
    have X: "split (h # t) X = take i X # split (h # t) ?X'"
      using Some by (subst split.simps) simp
    have ne: "split (h # t) ?X' \<noteq> []"
      by (rule split_nonempty) simp
    have "split (h # t) (X @ (h # e) @ Y) = take i X # split (h # t) (?X' @ (h # e) @ Y)"
      using i b by (subst split.simps) simp
    also have "\<dots> = take i X # (butlast (split (h # t) ?X') @
        [last (split (h # t) ?X') @ (h # e) @ hd (split (h # t) Y)] @ tl (split (h # t) Y))"
      using "1" [OF _ Some] by simp
    finally show ?thesis
      using X ne by simp
  qed
qed

lemma split_MessageStart_barrier:
  "split MessageStart (X @ MessageEnd @ Y) =
     butlast (split MessageStart X) @
     [last (split MessageStart X) @ MessageEnd @ hd (split MessageStart Y)] @
     tl (split MessageStart Y)"
proof -
  have "\<not> prefix (CHR ''<'' # tl MessageStart) (CHR ''<'' # tl MessageEnd)"
    "\<not> prefix (CHR ''<'' # tl MessageEnd) (CHR ''<'' # tl MessageStart)"
    by (simp_all add: MessageStart_def MessageEnd_def)
  from split_barrier [OF MessageStart_tl MessageEnd_tl this, of X Y] show ?thesis
    using MessageStart_Cons MessageEnd_Cons by simp
qed

lemma split_singleton: "sep \<noteq> [] \<Longrightarrow> split sep s = [x] \<Longrightarrow> x = s"
proof -
  assume sep: "sep \<noteq> []" and s: "split sep s = [x]"
  show "x = s"
  proof (cases "indexOf sep s")
    case None
    with sep s show ?thesis by (simp add: split_no_marker)
  next
    case (Some i)
    have "split sep s = take i s # split sep (drop (i + length sep) s)"
      using Some sep by (subst split.simps) simp
    with s split_nonempty [OF sep, of "drop (i + length sep) s"] show ?thesis by simp
  qed
qed

lemma first_line_cases:
  obtains (one) "CHR ''\<newline>'' \<notin> set s"
  | (more) U V where "s = U @ CHR ''\<newline>'' # V" and "CHR ''\<newline>'' \<notin> set U"
proof (cases "CHR ''\<newline>'' \<in> set s")
  case False
  then show ?thesis by (rule one)
next
  case True
  then obtain U V where "s = U @ CHR ''\<newline>'' # V" "CHR ''\<newline>'' \<notin> set U"
    by (auto dest: split_list_first)
  then show ?thesis by (rule more)
qed

lemma split_nl_prefix:
  assumes "CHR ''\<newline>'' \<notin> set p"
  shows "split ''\<newline>'' (p @ s) = (p @ hd (split ''\<newline>'' s)) # tl (split ''\<newline>'' s)"
proof (cases s rule: first_line_cases)
  case one
  with assms show ?thesis
    by (simp add: split_nl_none)
next
  case (more U V)
  have "split ''\<newline>'' ((p @ U) @ CHR ''\<newline>'' # V) =
      split ''\<newline>'' (p @ U) @ split ''\<newline>'' V"
    by (rule split_nl_append)
  moreover have "split ''\<newline>'' s = split ''\<newline>'' U @ split ''\<newline>'' V"
    unfolding more(1) by (rule split_nl_append)
  ultimately show ?thesis
    using assms more by (simp add: split_nl_none)
qed

lemma hd_split_nl:
  "hd (split ''\<newline>'' s) = takeWhile (\<lambda>c. c \<noteq> CHR ''\<newline>'') s"
proof (cases s rule: first_line_cases)
  case one
  then have "takeWhile (\<lambda>c. c \<noteq> CHR ''\<newline>'') s = s"
    by auto
  moreover have "split ''\<newline>'' s = [s]"
    using one by (rule split_nl_none)
  ultimately show ?thesis
    by (simp only: list.sel)
next
  case (more U V)
  have "split ''\<newline>'' s = split ''\<newline>'' U @ split ''\<newline>'' V"
    unfolding more(1) by (rule split_nl_append)
  moreover have "takeWhile (\<lambda>c. c \<noteq> CHR ''\<newline>'') (U @ CHR ''\<newline>'' # V) = U"
    using more(2) by (auto simp: takeWhile_tail)
  ultimately show ?thesis
    using more by (simp add: split_nl_none)
qed

lemma join_split_nl: "join ''\<newline>'' (split ''\<newline>'' s) = s"
proof (induction "length s" arbitrary: s rule: less_induct)
  case less
  show ?case
  proof (cases s rule: first_line_cases)
    case one
    then show ?thesis
      by (simp add: split_nl_none)
  next
    case (more U V)
    have "split ''\<newline>'' s = U # split ''\<newline>'' V"
      unfolding more(1) split_nl_append using more(2) by (simp add: split_nl_none)
    moreover have "split ''\<newline>'' V \<noteq> []"
      by (rule split_nonempty) simp
    moreover have "join ''\<newline>'' (split ''\<newline>'' V) = V"
      by (rule less) (simp add: more(1))
    ultimately show ?thesis
      using more(1) by (simp add: join_Cons)
  qed
qed

lemma foldl_mindent_None:
  "list_all (\<lambda>l. indent_of l = None) ls \<Longrightarrow> foldl mindent_step m ls = m"
  by (induction ls arbitrary: m) (simp_all add: mindent_step_def)

lemma map_strip_line_flush:
  "list_all (\<lambda>l. \<not> prefix '' '' l) ls \<Longrightarrow> map (strip_line k) ls = ls"
  by (induction ls) (auto simp: strip_line_def split: list.splits)

lemma replaceAll_absent: "\<not> sublist [a, b] s \<Longrightarrow> replaceAll [a, b] rep s = s"
proof (induction s)
  case Nil
  then show ?case by simp
next
  case (Cons c cs)
  then have "\<not> prefix [a, b] (c # cs)" and "\<not> sublist [a, b] cs"
    by (auto simp: sublist_Cons_right)
  with Cons.IH show ?case by auto
qed

lemma indent_of_indented:
  assumes "l \<noteq> []" and "\<not> js_space (hd l)"
  shows "indent_of (''      '' @ l) = Some 6"
proof -
  from assms obtain c r where l: "l = c # r" "\<not> js_space c"
    by (cases l) auto
  have sp: "js_space (CHR '' '')"
    by (simp add: js_space_def)
  show ?thesis
    unfolding l(1) using l(2) sp by (simp add: indent_of_def)
qed

lemma first_line_hd:
  assumes "X \<noteq> []" and "\<not> js_space (hd X)"
  shows "hd (split ''\<newline>'' X) \<noteq> [] \<and> hd (hd (split ''\<newline>'' X)) = hd X"
proof -
  from assms obtain c r where X: "X = c # r" "\<not> js_space c"
    by (cases X) auto
  have "js_space (CHR ''\<newline>'')"
    by (simp add: js_space_def)
  with X(2) have "c \<noteq> CHR ''\<newline>''"
    by auto
  then show ?thesis
    unfolding hd_split_nl X(1) by simp
qed

lemma dedent_appended:
  assumes X: "X \<noteq> []" "\<not> js_space (hd X)" "plain_text X"
    and Y: "Y \<noteq> []" "\<not> js_space (hd Y)" "\<not> js_space (last Y)" "plain_text Y"
  shows "dedent (''\<newline>      '' @ X @ ''\<newline>      \<newline>      '' @ Y @ ''\<newline>    '') =
     X @ ''\<newline>\<newline>'' @ Y"
proof -
  let ?nl = "CHR ''\<newline>''"
  define s6 where "s6 = ''      ''"
  define s4 where "s4 = ''    ''"
  define T where "T = [] @ ?nl # (s6 @ X) @ ?nl # s6 @ ?nl # (s6 @ Y) @ ?nl # s4"
  define x1 xs where "x1 = hd (split ''\<newline>'' X)" and "xs = tl (split ''\<newline>'' X)"
  define y1 ys where "y1 = hd (split ''\<newline>'' Y)" and "ys = tl (split ''\<newline>'' Y)"
  have arg: "''\<newline>      '' @ X @ ''\<newline>      \<newline>      '' @ Y @ ''\<newline>    '' = T"
    by (simp add: T_def s6_def s4_def)
  have ne: "split ''\<newline>'' X \<noteq> []" "split ''\<newline>'' Y \<noteq> []"
    by (rule split_nonempty; simp)+
  then have sX: "split ''\<newline>'' X = x1 # xs" and sY: "split ''\<newline>'' Y = y1 # ys"
    by (simp_all add: x1_def xs_def y1_def ys_def)
  have nl6: "?nl \<notin> set s6" and nl4: "?nl \<notin> set s4"
    by (simp_all add: s6_def s4_def)
  have lines: "split ''\<newline>'' T = [[]] @ ((s6 @ x1) # xs) @ [s6] @ ((s6 @ y1) # ys) @ [s4]"
    unfolding T_def split_nl_append split_nl_prefix [OF nl6] split_nl_none [OF nl6]
      split_nl_none [OF nl4] x1_def xs_def y1_def ys_def
    by (simp add: split.simps)
  have flushX: "list_all (\<lambda>l. indent_of l = None) xs" "list_all (\<lambda>l. \<not> prefix '' '' l) xs"
    and flushY: "list_all (\<lambda>l. indent_of l = None) ys" "list_all (\<lambda>l. \<not> prefix '' '' l) ys"
    using X(3) Y(4) unfolding plain_text_def sX sY by (simp_all add: list_all_iff)
  have i0: "indent_of [] = None" "indent_of s6 = None" "indent_of s4 = None"
    by (simp_all add: indent_of_def s6_def s4_def js_space_def)
  have ix: "indent_of (s6 @ x1) = Some 6"
    unfolding s6_def x1_def using first_line_hd [OF X(1,2)] X(2)
    by (intro indent_of_indented) simp_all
  have iy: "indent_of (s6 @ y1) = Some 6"
    unfolding s6_def y1_def using first_line_hd [OF Y(1,2)] Y(2)
    by (intro indent_of_indented) simp_all
  have mindent: "foldl mindent_step None (split ''\<newline>'' T) = Some 6"
    unfolding lines
    by (simp add: mindent_step_def i0 ix iy foldl_mindent_None [OF flushX(1)]
        foldl_mindent_None [OF flushY(1)])
  have st: "strip_line 6 [] = []" "strip_line 6 s6 = []" "strip_line 6 s4 = []"
    "strip_line 6 (s6 @ x1) = x1" "strip_line 6 (s6 @ y1) = y1"
    by (simp_all add: strip_line_def s6_def s4_def)
  have stripped: "map (strip_line 6) (split ''\<newline>'' T) =
      [[]] @ split ''\<newline>'' X @ [[]] @ split ''\<newline>'' Y @ [[]]"
    unfolding lines sX sY
    by (simp add: st map_strip_line_flush [OF flushX(2)] map_strip_line_flush [OF flushY(2)])
  have j1: "join ''\<newline>'' (split ''\<newline>'' Y @ [[]]) = Y @ [?nl]"
    using ne(2) by (simp add: join_append join_split_nl)
  have j2: "join ''\<newline>'' ([[]] @ split ''\<newline>'' Y @ [[]]) = ?nl # Y @ [?nl]"
    using ne(2) j1 join_append [of "[[]]" "split ''\<newline>'' Y @ [[]]" "''\<newline>''"] by simp
  have j3: "join ''\<newline>'' (split ''\<newline>'' X @ [[]] @ split ''\<newline>'' Y @ [[]]) =
      X @ ?nl # ?nl # Y @ [?nl]"
    using ne(1) j2 join_append [of "split ''\<newline>'' X" "[[]] @ split ''\<newline>'' Y @ [[]]" "''\<newline>''"]
    by (simp add: join_split_nl)
  have joined: "join ''\<newline>'' (map (strip_line 6) (split ''\<newline>'' T)) =
      ?nl # X @ ?nl # ?nl # Y @ [?nl]"
    unfolding stripped
    using j3 join_append [of "[[]]" "split ''\<newline>'' X @ [[]] @ split ''\<newline>'' Y @ [[]]" "''\<newline>''"]
    by simp
  have form: "?nl # X @ ?nl # ?nl # Y @ [?nl] =
      [?nl] @ hd X # (tl X @ ?nl # ?nl # butlast Y) @ last Y # [?nl]"
    using X(1) Y(1) by simp
  have "trim ([?nl] @ hd X # (tl X @ ?nl # ?nl # butlast Y) @ last Y # [?nl]) =
      hd X # (tl X @ ?nl # ?nl # butlast Y) @ [last Y]"
    by (rule trim_core) (use X(2) Y(3) in \<open>simp_all add: js_space_def\<close>)
  then have trimmed: "trim (?nl # X @ ?nl # ?nl # Y @ [?nl]) = X @ ?nl # ?nl # Y"
    unfolding form [symmetric] using X(1) Y(1) by simp
  have "\<not> sublist [CHR 0x5C, CHR ''n''] (X @ ?nl # ?nl # Y)"
  proof
    assume "sublist [CHR 0x5C, CHR ''n''] (X @ ?nl # ?nl # Y)"
    then have "sublist [CHR 0x5C, CHR ''n''] X \<or> sublist [CHR 0x5C, CHR ''n''] (?nl # Y)"
      by (intro sublist_nl_append) simp_all
    with X(3) have "sublist [CHR 0x5C, CHR ''n''] ([] @ ?nl # Y)"
      by (simp add: plain_text_def)
    then have "sublist [CHR 0x5C, CHR ''n''] [] \<or> sublist [CHR 0x5C, CHR ''n''] Y"
      by (intro sublist_nl_append) simp_all
    with Y(4) show False
      by (simp add: plain_text_def)
  qed
  then have "replaceAll [CHR 0x5C, CHR ''n''] ''\<newline>'' (X @ ?nl # ?nl # Y) = X @ ?nl # ?nl # Y"
    by (rule replaceAll_absent)
  then have "dedent T = X @ ?nl # ?nl # Y"
    unfolding dedent_def Let_def mindent option.case joined trimmed .
  then show ?thesis
    unfolding arg by simp
qed

lemma messageWrapper_ends:
  "messageWrapper x \<noteq> [] \<and> hd (messageWrapper x) = CHR ''<'' \<and> last (messageWrapper x) = CHR ''>''"
proof -
  obtain m where "messageWrapper x = MessageStart @ m @ MessageEnd"
    using messageWrapper_markers by blast
  then show ?thesis
    by (simp add: MessageStart_def MessageEnd_def)
qed

section \<open>Facts about the engine\<close>

lemma parseMessage_no_start:
  "\<not> sublist MessageStart body \<Longrightarrow> parseMessage body = Inl TypeError"
  by (simp add: parseMessage_def split_MessageStart_none)

lemma split_MessageStart_two:
  assumes "sublist MessageStart body"
  shows "\<exists>a b r. split MessageStart body = a # b # r"
proof -
  from assms obtain i where i: "indexOf MessageStart body = Some i"
    using indexOf_None_sublist [of MessageStart body] by auto
  have "split MessageStart body =
      take i body # split MessageStart (drop (i + length MessageStart) body)"
    using i by (subst split.simps) (simp add: MessageStart_def)
  moreover obtain b r where "split MessageStart (drop (i + length MessageStart) body) = b # r"
    using split_MessageStart_nonempty by (meson list.exhaust)
  ultimately show ?thesis by simp
qed

lemma parseMessage_start:
  "sublist MessageStart body \<Longrightarrow> \<exists>message. parseMessage body = Inr message"
  using split_MessageStart_two [of body] by (auto simp: parseMessage_def)

lemma parseMessage_open_envelope:
  assumes "\<not> sublist MessageStart A" and "\<not> sublist MessageStart rest"
    and "\<not> sublist MessageEnd rest"
  shows "parseMessage (A @ MessageStart @ rest) = Inr rest"
proof -
  have "split MessageStart (A @ MessageStart @ rest) = [A, rest]"
    using split_MessageStart_append [of A rest] assms(1,2)
    by (simp add: split_MessageStart_none)
  moreover have "split MessageEnd rest = [rest]"
    using assms(3) by (rule split_MessageEnd_none)
  ultimately show ?thesis
    by (simp add: parseMessage_def)
qed

lemma handler_not_onboarding:
  assumes "\<not> sublist MessageStart (pr_body ctx)" and "action ctx \<noteq> ''opened''"
  shows "calls (handler D ctx) = []"
  using assms
  by (simp add: handler_def isOnboarding_def throw_def no_action_def Let_def split: sum.splits)

lemma handler_old_body_no_start:
  assumes "getConfig D ctx = Inr config" and "action ctx = ''edited''"
    and "sublist MessageStart (pr_body ctx)"
    and "changes_body_from ctx = Some old" and "\<not> sublist MessageStart old"
  shows "handler D ctx = throw TypeError"
proof -
  have "pr_body ctx \<noteq> []"
    using assms(3) by (auto simp: MessageStart_def)
  moreover obtain message where "parseMessage (pr_body ctx) = Inr message"
    using parseMessage_start [OF assms(3)] by blast
  ultimately have "didMessageChange ctx = Inl TypeError"
    using assms(4,5) by (simp add: didMessageChange_def didBodyChange_def parseMessage_no_start)
  then show ?thesis
    using assms(1,2,3) by (simp add: handler_def isOnboarding_def Let_def)
qed

lemma handler_opened:
  assumes "action ctx = ''opened''" and "getConfig D ctx = Inr config"
    and "\<not> hasReleaseLabels D (getLabelRelease D ctx config)"
  shows "handler D ctx = opened_flow D ctx config"
  using assms by (simp add: handler_def Let_def)

lemma checklistItem_useLabels:
  "checklistItem D checklists' key True prLabels label =
     \<lparr>item_id = hash D (label_name label), checked = (label_name label \<in> set prLabels),
      item_body = renderLabel D label\<rparr>"
  by (simp add: checklistItem_def Let_def split: option.splits)

lemma labeled_flow_no_label_calls:
  "list_all (\<lambda>c. case c of AddLabels _ \<Rightarrow> False | RemoveLabels _ \<Rightarrow> False | _ \<Rightarrow> True)
     (calls (labeled_flow D ctx config))"
  by (auto simp: labeled_flow_def throw_def no_action_def Let_def
      split: sum.splits bool.splits option.splits)

lemma handler_labeled_no_label_calls:
  assumes "action ctx = ''labeled'' \<or> action ctx = ''unlabeled''"
  shows "list_all (\<lambda>c. case c of AddLabels _ \<Rightarrow> False | RemoveLabels _ \<Rightarrow> False | _ \<Rightarrow> True)
     (calls (handler D ctx))"
  using assms labeled_flow_no_label_calls [of D ctx]
  by (auto simp: handler_def throw_def no_action_def Let_def split: sum.splits)

lemma getRequiredLabelChanges_start:
  "sublist MessageStart body \<Longrightarrow> \<exists>changes. getRequiredLabelChanges D body config = Inr changes"
  using parseMessage_start [of body] by (auto simp: getRequiredLabelChanges_def Let_def)

lemma overwriteMessage_onboarding:
  assumes "isOnboarding ctx"
  shows "\<exists>body. overwriteMessage ctx content = Inr body \<and> sublist MessageStart body"
proof -
  obtain a b r where s: "split MessageStart (pr_body ctx) = a # b # r"
    using assms split_MessageStart_two unfolding isOnboarding_def by blast
  obtain m where "messageWrapper content = MessageStart @ m @ MessageEnd"
    using messageWrapper_markers by blast
  then have "sublist MessageStart (a @ messageWrapper content @ e)" for e
    by (metis sublist_appendI append.assoc)
  with s show ?thesis
    by (simp add: overwriteMessage_def Let_def)
qed

lemma didMessageChange_True:
  assumes "didMessageChange ctx = Inr True"
  shows "\<exists>from' oldMessage. changes_body_from ctx = Some from' \<and> parseMessage from' = Inr oldMessage"
  using assms by (auto simp: didMessageChange_def split: if_splits sum.splits option.splits)

lemma edited_flow_reached:
  fixes D :: "('lc, 'x, 'gl, 'rel) deps"
  assumes cfg: "getConfig D ctx = Inr config"
    and act: "action ctx = ''edited''"
    and onb: "isOnboarding ctx"
    and chg: "didMessageChange ctx = Inr True"
    and sent: "sentByThisApp D ctx = Inr False"
    and secs: "createLabelChecklists D ctx config False = Inr sections"
  shows "\<exists>body from' oldMessage changes.
     overwriteMessage ctx (onBoardingMessage sections) = Inr body \<and>
     changes_body_from ctx = Some from' \<and> parseMessage from' = Inr oldMessage \<and>
     getRequiredLabelChanges D body config = Inr changes \<and>
     (let changed = didChecklistsChange D (onBoardingMessage sections) oldMessage;
          addLabelsError =
            (if changed then addLabelsToPR D ctx (labelsToAdd changes) else None);
          removeLabelsError =
            (if changed then removeLabelsFromPR D ctx (labelsToRemove changes) else None);
          updateBodyError = pulls_update D ctx body
      in calls (handler D ctx) =
           (if changed
            then [AddLabels (labelsToAdd changes), RemoveLabels (labelsToRemove changes)]
            else []) @
           [PullsUpdate body] @
           (if addLabelsError \<noteq> None
            then [LogError ''Error when trying to add labels'' addLabelsError] else []) @
           (if removeLabelsError \<noteq> None
            then [LogError ''Error when trying to remove labels'' removeLabelsError] else []) @
           (if updateBodyError \<noteq> None
            then [LogError ''Error when trying to update the body'' updateBodyError] else []) \<and>
         thrown (handler D ctx) =
           (if addLabelsError \<noteq> None \<or> removeLabelsError \<noteq> None \<or> updateBodyError \<noteq> None
            then Some (Error
              ''Encountered issue after checklist edit, see log above for details'')
            else None))"
proof -
  obtain body where body: "overwriteMessage ctx (onBoardingMessage sections) = Inr body"
    and start: "sublist MessageStart body"
    using overwriteMessage_onboarding [OF onb] by blast
  obtain from' oldMessage where old: "changes_body_from ctx = Some from'"
    "parseMessage from' = Inr oldMessage"
    using didMessageChange_True [OF chg] by blast
  obtain changes where changes: "getRequiredLabelChanges D body config = Inr changes"
    using getRequiredLabelChanges_start [OF start] by blast
  have h: "handler D ctx = edited_flow D ctx config"
    using cfg act onb chg by (simp add: handler_def Let_def)
  have "calls (edited_flow D ctx config) =
      (if didChecklistsChange D (onBoardingMessage sections) oldMessage
       then [AddLabels (labelsToAdd changes), RemoveLabels (labelsToRemove changes)]
       else []) @
      [PullsUpdate body] @
      (if (if didChecklistsChange D (onBoardingMessage sections) oldMessage
           then addLabelsToPR D ctx (labelsToAdd changes) else None) \<noteq> None
       then [LogError ''Error when trying to add labels''
               (if didChecklistsChange D (onBoardingMessage sections) oldMessage
                then addLabelsToPR D ctx (labelsToAdd changes) else None)] else []) @
      (if (if didChecklistsChange D (onBoardingMessage sections) oldMessage
           then removeLabelsFromPR D ctx (labelsToRemove changes) else None) \<noteq> None
       then [LogError ''Error when trying to remove labels''
               (if didChecklistsChange D (onBoardingMessage sections) oldMessage
                then removeLabelsFromPR D ctx (labelsToRemove changes) else None)] else []) @
      (if pulls_update D ctx body \<noteq> None
       then [LogError ''Error when trying to update the body'' (pulls_update D ctx body)]
       else [])"
    using sent secs body old changes
    by (simp add: edited_flow_def Let_def)
  moreover have "thrown (edited_flow D ctx config) =
      (if (if didChecklistsChange D (onBoardingMessage sections) oldMessage
           then addLabelsToPR D ctx (labelsToAdd changes) else None) \<noteq> None \<or>
          (if didChecklistsChange D (onBoardingMessage sections) oldMessage
           then removeLabelsFromPR D ctx (labelsToRemove changes) else None) \<noteq> None \<or>
          pulls_update D ctx body \<noteq> None
       then Some (Error ''Encountered issue after checklist edit, see log above for details'')
       else None)"
    using sent secs body old changes
    by (simp add: edited_flow_def Let_def)
  ultimately show ?thesis
    using body old changes unfolding h Let_def by blast
qed

lemma checklistItem_no_checklist:
  "map_of checklists' key = None \<Longrightarrow>
   checked (checklistItem D checklists' key False prLabels label) = False"
  by (simp add: checklistItem_def Let_def)

lemma promise_all_unchecked:
  fixes D :: "('lc, 'x, 'gl, 'rel) deps"
  assumes "promise_all (\<lambda>x. case p x of Inl e \<Rightarrow> Inl e
             | Inr label \<Rightarrow> Inr (checklistItem D checklists' key False prLabels label)) xs = Inr its"
    and "map_of checklists' key = None"
  shows "list_all (\<lambda>i. \<not> checked i) its"
  using assms(1)
proof (induction xs arbitrary: its)
  case Nil
  then show ?case by simp
next
  case (Cons x xs)
  then show ?case
    using checklistItem_no_checklist [OF assms(2), of D prLabels]
    by (auto split: sum.splits)
qed

lemma overwriteMessage_second_start:
  "overwriteMessage (ctx\<lparr>pr_body := A @ MessageStart @ B @ MessageStart @ C\<rparr>) y =
   overwriteMessage (ctx\<lparr>pr_body := A @ MessageStart @ B\<rparr>) y"
proof -
  have "split MessageStart (A @ MessageStart @ B @ MessageStart @ C) =
        split MessageStart A @ split MessageStart B @ split MessageStart C"
    by (simp add: split_MessageStart_append)
  moreover have "split MessageStart (A @ MessageStart @ B) =
        split MessageStart A @ split MessageStart B"
    by (simp add: split_MessageStart_append)
  moreover obtain a b r r' where
    "split MessageStart A @ split MessageStart B @ split MessageStart C = a # b # r"
    "split MessageStart A @ split MessageStart B = a # b # r'"
    using first_two_append [OF split_MessageStart_nonempty split_MessageStart_nonempty] by blast
  ultimately show ?thesis
    by (simp add: overwriteMessage_def)
qed

lemma overwriteMessage_second_end:
  "overwriteMessage (ctx\<lparr>pr_body := A @ MessageStart @ P @ MessageEnd @ Q @ MessageEnd @ R\<rparr>) y =
   overwriteMessage (ctx\<lparr>pr_body := A @ MessageStart @ P @ MessageEnd @ Q\<rparr>) y"
proof -
  let ?W = "A @ MessageStart @ P @ MessageEnd @ Q"
  define ws where "ws = split MessageStart ?W"
  define r1 where "r1 = hd (split MessageStart R)"
  define rs where "rs = tl (split MessageStart R)"
  have long: "split MessageStart (?W @ MessageEnd @ R) =
      butlast ws @ [last ws @ MessageEnd @ r1] @ rs"
    unfolding ws_def r1_def rs_def by (rule split_MessageStart_barrier)
  have ws: "ws = split MessageStart A @ split MessageStart (P @ MessageEnd @ Q)"
    unfolding ws_def by (rule split_MessageStart_append)
  obtain a as where A: "split MessageStart A = a # as"
    using split_MessageStart_nonempty by (meson list.exhaust)
  obtain p ps where P: "split MessageStart (P @ MessageEnd @ Q) = p # ps"
    using split_MessageStart_nonempty by (meson list.exhaust)
  have body: "A @ MessageStart @ P @ MessageEnd @ Q @ MessageEnd @ R = ?W @ MessageEnd @ R"
    by simp
  show ?thesis
  proof (cases "as = [] \<and> ps = []")
    case False
    then have "3 \<le> length ws"
      unfolding ws A P by (cases as; cases ps) auto
    then obtain w1 w2 w3 ws' where "ws = w1 # w2 # w3 # ws'"
      by (auto simp: numeral_3_eq_3 Suc_le_length_iff)
    then show ?thesis
      unfolding body overwriteMessage_def Let_def
      using long ws_def by simp
  next
    case True
    then have "a = A" and p: "p = P @ MessageEnd @ Q"
      using A P split_singleton [of MessageStart] by (simp_all add: MessageStart_def)
    with True have w: "ws = [A, P @ MessageEnd @ Q]"
      unfolding ws A P by simp
    have l: "split MessageStart (?W @ MessageEnd @ R) =
        A # (P @ MessageEnd @ Q @ MessageEnd @ r1) # rs"
      unfolding long w by simp
    have "split MessageEnd (P @ MessageEnd @ Q @ MessageEnd @ r1) =
        split MessageEnd P @ split MessageEnd Q @ split MessageEnd r1"
      by (simp add: split_MessageEnd_append)
    moreover have "split MessageEnd (P @ MessageEnd @ Q) = split MessageEnd P @ split MessageEnd Q"
      by (simp add: split_MessageEnd_append)
    moreover obtain u v r r' where
      "split MessageEnd P @ split MessageEnd Q @ split MessageEnd r1 = u # v # r"
      "split MessageEnd P @ split MessageEnd Q = u # v # r'"
      using first_two_append [OF split_MessageEnd_nonempty split_MessageEnd_nonempty] by blast
    ultimately have "(case split MessageEnd (P @ MessageEnd @ Q @ MessageEnd @ r1) of
          _ # e # _ \<Rightarrow> Some e | _ \<Rightarrow> None) =
        (case split MessageEnd (P @ MessageEnd @ Q) of _ # e # _ \<Rightarrow> Some e | _ \<Rightarrow> None)"
      by simp
    then show ?thesis
      unfolding body overwriteMessage_def Let_def
      using l w ws_def by simp
  qed
qed

lemma overwriteMessage_envelope:
  assumes A: "\<not> sublist MessageStart A"
    and M: "\<not> sublist MessageStart M" "\<not> sublist MessageEnd M"
    and B: "\<not> sublist MessageStart B" "\<not> sublist MessageEnd B"
  shows "overwriteMessage (ctx\<lparr>pr_body := A @ MessageStart @ M @ MessageEnd @ B\<rparr>) y =
     Inr (A @ messageWrapper y @ B)"
proof -
  have rest: "\<not> sublist MessageStart (M @ MessageEnd @ B)"
    using sublist_MessageStart_End M(1) B(1) by blast
  have "split MessageStart (A @ MessageStart @ (M @ MessageEnd @ B)) = [A, M @ MessageEnd @ B]"
    using split_MessageStart_append [of A "M @ MessageEnd @ B"]
      split_MessageStart_none [OF A] split_MessageStart_none [OF rest] by simp
  moreover have "split MessageEnd (M @ MessageEnd @ B) = [M, B]"
    using split_MessageEnd_append [of M B]
      split_MessageEnd_none [OF M(2)] split_MessageEnd_none [OF B(2)] by simp
  ultimately show ?thesis
    by (simp add: overwriteMessage_def toString_def)
qed

lemma parseMessage_envelope:
  assumes A: "\<not> sublist MessageStart A"
    and M: "\<not> sublist MessageStart M" "\<not> sublist MessageEnd M"
    and B: "\<not> sublist MessageStart B"
  shows "parseMessage (A @ MessageStart @ M @ MessageEnd @ B) = Inr M"
proof -
  have rest: "\<not> sublist MessageStart (M @ MessageEnd @ B)"
    using sublist_MessageStart_End M(1) B(1) by blast
  have "split MessageStart (A @ MessageStart @ (M @ MessageEnd @ B)) = [A, M @ MessageEnd @ B]"
    using split_MessageStart_append [of A "M @ MessageEnd @ B"]
      split_MessageStart_none [OF A] split_MessageStart_none [OF rest] by simp
  moreover have "split MessageEnd (M @ MessageEnd @ B) = M # split MessageEnd B"
    using split_MessageEnd_append [of M B] split_MessageEnd_none [OF M(2)] by simp
  ultimately show ?thesis
    by (simp add: parseMessage_def)
qed

lemma promise_all_map:
  "promise_all p xs = Inr ls \<Longrightarrow>
   promise_all (\<lambda>x. case p x of Inl e \<Rightarrow> Inl e | Inr l \<Rightarrow> Inr (g l)) xs = Inr (map g ls)"
  by (induction xs arbitrary: ls) (auto split: sum.splits)

lemma checklistItem_embedded:
  "map_of checklists' key = Some embedded \<Longrightarrow>
   checklistItem D checklists' key False prLabels label =
     \<lparr>item_id = hash D (label_name label),
      checked = (case find (\<lambda>i. item_id i = hash D (label_name label)) (items embedded) of
                   Some i \<Rightarrow> checked i
                 | None \<Rightarrow> False),
      item_body = renderLabel D label\<rparr>"
  by (simp add: checklistItem_def Let_def)

lemma handler_labeled:
  assumes "getConfig D ctx = Inr config"
    and "action ctx = ''labeled'' \<or> action ctx = ''unlabeled''"
    and "isOnboarding ctx"
  shows "handler D ctx = labeled_flow D ctx config"
  using assms by (auto simp: handler_def Let_def)

lemma handler_edited:
  assumes "getConfig D ctx = Inr config" and "action ctx = ''edited''"
    and "isOnboarding ctx" and "didMessageChange ctx = Inr True"
  shows "handler D ctx = edited_flow D ctx config"
  using assms by (simp add: handler_def Let_def)

lemma parseMessage_onboarding:
  "isOnboarding ctx \<Longrightarrow> \<exists>message. parseMessage (pr_body ctx) = Inr message"
  unfolding isOnboarding_def by (rule parseMessage_start)

lemma isEqual_map_of:
  assumes "isEqual a b" and "map_of a k = Some v"
  shows "map_of b k = Some v"
proof -
  from assms(2) have "(k, v) \<in> set a"
    by (rule map_of_SomeD)
  with assms(1) show ?thesis
    by (auto simp: isEqual_def list_all_iff)
qed

section \<open>Facts about the reference instance\<close>

lemma spec_deps_sel:
  "getConfig (spec_deps c s a e1 e2 e3) = (\<lambda>_. Inr c)"
  "sentByThisApp (spec_deps c s a e1 e2 e3) = (\<lambda>_. Inr s)"
  "listLabelsForRepo (spec_deps c s a e1 e2 e3) = (\<lambda>_. Inr [])"
  "populateLabel (spec_deps c s a e1 e2 e3) =
     (\<lambda>role labelConfig _ _. Inr \<lparr>label_name = spec_labelName role labelConfig,
        label_description = None, label_color = None\<rparr>)"
  "getSkipReleaseLabelsFromConfig (spec_deps c s a e1 e2 e3) = spec_skipReleaseLabels"
  "hash (spec_deps c s a e1 e2 e3) = (\<lambda>n. n)"
  "renderLabel (spec_deps c s a e1 e2 e3) = label_name"
  "parseChecklists (spec_deps c s a e1 e2 e3) = spec_parseChecklists"
  "moreThanOneItemChecked (spec_deps c s a e1 e2 e3) = spec_moreThanOneItemChecked"
  "pulls_update (spec_deps c s a e1 e2 e3) = (\<lambda>_ _. e3)"
  by (simp_all add: spec_deps_def)

lemma spec_deps_attached:
  "getLabelsOnPR (spec_deps c s a e1 e2 e3) = (\<lambda>_. a)"
  "labelToString (spec_deps c s a e1 e2 e3) = (\<lambda>l. l)"
  "findLabelFromHash (spec_deps c s a e1 e2 e3) = (\<lambda>h c. find (\<lambda>n. n = h) (spec_labelNames c))"
  by (simp_all add: spec_deps_def)

lemma promise_all_total: "promise_all (\<lambda>x. Inr (g x)) xs = Inr (map g xs)"
  by (induction xs) auto

lemma spec_deps_sections:
  "\<exists>sections. createLabelChecklists (spec_deps c s a e1 e2 e3) ctx config useLabels = Inr sections"
  by (simp add: createLabelChecklists_def semverChecklistItems_def skipReleaseChecklistItems_def
      spec_deps_sel promise_all_total Let_def)

lemma dedent_rewrites_interpolated_text:
  "dedent (''\<newline>      '' @ ''- a\<newline>  - b'' @ ''\<newline>      \<newline>      '' @ ''envelope'' @ ''\<newline>    '') =
     ''- a\<newline>- b\<newline>    \<newline>    envelope''"
  by code_simp

section \<open>The envelope codec\<close>

text \<open>
  Claim C3. Splicing a new content \<open>y\<close> into the document \<open>A + wrap(x) + B\<close> yields exactly
  \<open>A + wrap(y) + B\<close>. This holds when the start marker occurs in none of \<open>A\<close>, \<open>x\<close>
  and \<open>B\<close> and the end marker occurs in neither \<open>x\<close> nor \<open>B\<close>: then the text before the
  envelope and the text after it are returned character by character.
\<close>

theorem overwriteMessage_isolation:
  assumes body: "pr_body context = A @ messageWrapper x @ B"
    and A: "\<not> sublist MessageStart A"
    and x: "\<not> sublist MessageStart x" "\<not> sublist MessageEnd x"
    and B: "\<not> sublist MessageStart B" "\<not> sublist MessageEnd B"
  shows "overwriteMessage context y = Inr (A @ messageWrapper y @ B)"
proof -
  obtain m where wrapped: "messageWrapper x = MessageStart @ m @ MessageEnd"
    and m: "\<not> sublist MessageStart m" "\<not> sublist MessageEnd m"
    using messageWrapper_markers [of x] x by blast
  have rest: "\<not> sublist MessageStart (m @ MessageEnd @ B)"
    using sublist_MessageStart_End m(1) B(1) by blast
  have "pr_body context = A @ MessageStart @ (m @ MessageEnd @ B)"
    using body wrapped by simp
  then have "split MessageStart (pr_body context) = [A, m @ MessageEnd @ B]"
    using split_MessageStart_append [of A "m @ MessageEnd @ B"]
      split_MessageStart_none [OF A] split_MessageStart_none [OF rest] by simp
  moreover have "split MessageEnd (m @ MessageEnd @ B) = [m, B]"
    using split_MessageEnd_append [of m B]
      split_MessageEnd_none [OF m(2)] split_MessageEnd_none [OF B(2)] by simp
  ultimately show ?thesis
    by (simp add: overwriteMessage_def toString_def)
qed

text \<open>
  An instance: a sentence before the envelope and one after it.
\<close>

theorem overwriteMessage_isolation_witness:
  "\<not> sublist MessageStart ''See #1. '' \<and>
   \<not> sublist MessageStart ''x'' \<and> \<not> sublist MessageEnd ''x'' \<and>
   \<not> sublist MessageStart '' Thanks!'' \<and> \<not> sublist MessageEnd '' Thanks!'' \<and>
   overwriteMessage
     \<lparr>action = ''edited'', pr_body = ''See #1. '' @ messageWrapper ''x'' @ '' Thanks!'',
      changes_body_from = None\<rparr> ''y'' =
   Inr (''See #1. '' @ messageWrapper ''y'' @ '' Thanks!'')"
proof -
  have A: "\<not> sublist MessageStart ''See #1. ''"
    by code_simp
  have x: "\<not> sublist MessageStart ''x''" "\<not> sublist MessageEnd ''x''"
    by code_simp+
  have B: "\<not> sublist MessageStart '' Thanks!''" "\<not> sublist MessageEnd '' Thanks!''"
    by code_simp+
  have "overwriteMessage
     \<lparr>action = ''edited'', pr_body = ''See #1. '' @ messageWrapper ''x'' @ '' Thanks!'',
      changes_body_from = None\<rparr> ''y'' =
   Inr (''See #1. '' @ messageWrapper ''y'' @ '' Thanks!'')"
    by (rule overwriteMessage_isolation [OF _ A x B]) simp
  with A x B show ?thesis
    by (intro conjI)
qed

text \<open>
  Without the conditions the equation fails: when the text after the envelope mentions the end
  marker, the splice keeps the text up to that mention and loses the rest.
\<close>

theorem overwriteMessage_isolation_counterexample:
  "overwriteMessage
     \<lparr>action = ''edited'',
      pr_body = ''A'' @ messageWrapper ''x'' @ ''B'' @ MessageEnd @ ''C'',
      changes_body_from = None\<rparr> ''y'' =
   Inr (''A'' @ messageWrapper ''y'' @ ''B'') \<and>
   ''A'' @ messageWrapper ''y'' @ ''B'' \<noteq> ''A'' @ messageWrapper ''y'' @ ''B'' @ MessageEnd @ ''C''"
  by code_simp

text \<open>
  Claim C9. For every body \<open>A + START + B + START + C\<close>, \<open>overwriteMessage\<close> returns
  what it returns for \<open>A + START + B\<close>: nothing of the second start marker and of \<open>C\<close>
  reaches the result. Likewise, for every body \<open>A + START + P + END + Q + END + R\<close> it
  returns what it returns for \<open>A + START + P + END + Q\<close>: the second end marker and \<open>R\<close>
  are dropped. The text around the envelope is kept for every body \<open>U + START + M + END + V\<close>
  in which the start marker occurs in none of \<open>U\<close>, \<open>M\<close> and \<open>V\<close> and the end marker
  occurs in neither \<open>M\<close> nor \<open>V\<close>; the end marker may occur in \<open>U\<close>.
\<close>

theorem overwriteMessage_drops:
  "overwriteMessage (ctx\<lparr>pr_body := A @ MessageStart @ B @ MessageStart @ C\<rparr>) y =
     overwriteMessage (ctx\<lparr>pr_body := A @ MessageStart @ B\<rparr>) y \<and>
   overwriteMessage
     (ctx\<lparr>pr_body := A' @ MessageStart @ P @ MessageEnd @ Q @ MessageEnd @ R\<rparr>) y =
     overwriteMessage (ctx\<lparr>pr_body := A' @ MessageStart @ P @ MessageEnd @ Q\<rparr>) y \<and>
   (\<not> sublist MessageStart U \<and> \<not> sublist MessageStart M \<and> \<not> sublist MessageEnd M \<and>
    \<not> sublist MessageStart V \<and> \<not> sublist MessageEnd V \<longrightarrow>
      overwriteMessage (ctx\<lparr>pr_body := U @ MessageStart @ M @ MessageEnd @ V\<rparr>) y =
        Inr (U @ messageWrapper y @ V))"
proof (intro conjI impI)
  show "overwriteMessage (ctx\<lparr>pr_body := A @ MessageStart @ B @ MessageStart @ C\<rparr>) y =
      overwriteMessage (ctx\<lparr>pr_body := A @ MessageStart @ B\<rparr>) y"
    by (rule overwriteMessage_second_start)
  show "overwriteMessage
      (ctx\<lparr>pr_body := A' @ MessageStart @ P @ MessageEnd @ Q @ MessageEnd @ R\<rparr>) y =
      overwriteMessage (ctx\<lparr>pr_body := A' @ MessageStart @ P @ MessageEnd @ Q\<rparr>) y"
    by (rule overwriteMessage_second_end)
  assume "\<not> sublist MessageStart U \<and> \<not> sublist MessageStart M \<and> \<not> sublist MessageEnd M \<and>
    \<not> sublist MessageStart V \<and> \<not> sublist MessageEnd V"
  then show "overwriteMessage (ctx\<lparr>pr_body := U @ MessageStart @ M @ MessageEnd @ V\<rparr>) y =
      Inr (U @ messageWrapper y @ V)"
    by (intro overwriteMessage_envelope) simp_all
qed

text \<open>
  An instance of the three parts, with the results: the first loses \<open>C\<close> and has no end to
  append, the second loses \<open>R\<close>, and the third keeps a text before the envelope that
  mentions the end marker.
\<close>

theorem overwriteMessage_drops_witness:
  "overwriteMessage
     \<lparr>action = ''edited'', pr_body = ''A'' @ MessageStart @ ''B'' @ MessageStart @ ''C'',
      changes_body_from = None\<rparr> ''y'' =
     Inr (''A'' @ messageWrapper ''y'' @ ''undefined'') \<and>
   overwriteMessage
     \<lparr>action = ''edited'',
      pr_body = ''A'' @ MessageStart @ ''P'' @ MessageEnd @ ''Q'' @ MessageEnd @ ''R'',
      changes_body_from = None\<rparr> ''y'' =
     Inr (''A'' @ messageWrapper ''y'' @ ''Q'') \<and>
   sublist MessageEnd (''See '' @ MessageEnd @ ''. '') \<and>
   \<not> sublist MessageStart (''See '' @ MessageEnd @ ''. '') \<and>
   \<not> sublist MessageStart ''M'' \<and> \<not> sublist MessageEnd ''M'' \<and>
   \<not> sublist MessageStart '' Thanks!'' \<and> \<not> sublist MessageEnd '' Thanks!'' \<and>
   overwriteMessage
     \<lparr>action = ''edited'',
      pr_body = (''See '' @ MessageEnd @ ''. '') @ MessageStart @ ''M'' @ MessageEnd @ '' Thanks!'',
      changes_body_from = None\<rparr> ''y'' =
     Inr ((''See '' @ MessageEnd @ ''. '') @ messageWrapper ''y'' @ '' Thanks!'')"
proof -
  let ?c = "\<lparr>action = ''edited'', pr_body = [], changes_body_from = None\<rparr>"
  have 1: "overwriteMessage
      \<lparr>action = ''edited'', pr_body = ''A'' @ MessageStart @ ''B'', changes_body_from = None\<rparr> ''y'' =
      Inr (''A'' @ messageWrapper ''y'' @ ''undefined'')"
    by code_simp
  have 2: "overwriteMessage
      \<lparr>action = ''edited'', pr_body = ''A'' @ MessageStart @ ''P'' @ MessageEnd @ ''Q'',
       changes_body_from = None\<rparr> ''y'' =
      Inr (''A'' @ messageWrapper ''y'' @ ''Q'')"
    by code_simp
  have e: "sublist MessageEnd (''See '' @ MessageEnd @ ''. '')"
    by code_simp
  have U: "\<not> sublist MessageStart (''See '' @ MessageEnd @ ''. '')"
    by code_simp
  have M: "\<not> sublist MessageStart ''M''" "\<not> sublist MessageEnd ''M''"
    by code_simp+
  have V: "\<not> sublist MessageStart '' Thanks!''" "\<not> sublist MessageEnd '' Thanks!''"
    by code_simp+
  note t = overwriteMessage_drops [where ctx = ?c
      and A = "''A''" and B = "''B''" and C = "''C''" and y = "''y''" and A' = "''A''"
      and P = "''P''" and Q = "''Q''" and R = "''R''"
      and U = "''See '' @ MessageEnd @ ''. ''" and M = "''M''" and V = "'' Thanks!''"]
  from t 1 2 e U M V show ?thesis
    by simp
qed

text \<open>
  The text around the envelope can be kept although a marker occurs twice: in this body the end
  marker occurs twice, the first time before the envelope, and every character outside the
  envelope is returned.
\<close>

theorem overwriteMessage_drops_counterexample:
  "length (split MessageEnd
     (''p'' @ MessageEnd @ ''q'' @ messageWrapper ''x'' @ ''B'')) = 3 \<and>
   overwriteMessage
     \<lparr>action = ''edited'',
      pr_body = ''p'' @ MessageEnd @ ''q'' @ messageWrapper ''x'' @ ''B'',
      changes_body_from = None\<rparr> ''y'' =
   Inr (''p'' @ MessageEnd @ ''q'' @ messageWrapper ''y'' @ ''B'')"
  by code_simp

text \<open>
  Claim C2. A body without the start marker makes \<open>parseMessage\<close> throw (a
  \<open>TypeError\<close>; the module has no error of its own), and a body with the start marker makes it
  return, whether or not the end marker follows: of a body \<open>A + START + rest\<close> with no further
  marker it returns \<open>rest\<close>. On every event other than \<open>opened\<close> whose body has no start
  marker the handler issues no call, and an \<open>edited\<close> event whose previous body has no
  start marker makes the handler throw before any call.
\<close>

theorem parseMessage_start_marker:
  "(\<not> sublist MessageStart body \<longrightarrow> parseMessage body = Inl TypeError) \<and>
   (sublist MessageStart body' \<longrightarrow> (\<exists>message. parseMessage body' = Inr message)) \<and>
   (\<not> sublist MessageStart A \<and> \<not> sublist MessageStart rest \<and> \<not> sublist MessageEnd rest \<longrightarrow>
      parseMessage (A @ MessageStart @ rest) = Inr rest) \<and>
   (\<not> sublist MessageStart (pr_body ctx) \<and> action ctx \<noteq> ''opened'' \<longrightarrow>
      calls (handler D ctx) = []) \<and>
   (getConfig D' ctx' = Inr config \<and> action ctx' = ''edited'' \<and>
    sublist MessageStart (pr_body ctx') \<and> changes_body_from ctx' = Some old \<and>
    \<not> sublist MessageStart old \<longrightarrow>
      handler D' ctx' = throw TypeError)"
  using parseMessage_no_start [of body] parseMessage_start [of body']
    parseMessage_open_envelope [of A rest]
    handler_not_onboarding [of ctx D] handler_old_body_no_start [of D' ctx' config old]
  by blast

text \<open>
  An instance of each part.
\<close>

theorem parseMessage_start_marker_witness:
  "\<not> sublist MessageStart ''Fixes a bug.'' \<and>
   parseMessage ''Fixes a bug.'' = Inl TypeError \<and>
   sublist MessageStart example_body \<and>
   (\<exists>message. parseMessage example_body = Inr message) \<and>
   \<not> sublist MessageStart '' unfinished'' \<and> \<not> sublist MessageEnd '' unfinished'' \<and>
   parseMessage (''Fixes a bug.'' @ MessageStart @ '' unfinished'') = Inr '' unfinished'' \<and>
   calls (handler (spec_deps example_config False [] None None None)
     \<lparr>action = ''edited'', pr_body = ''Fixes a bug.'', changes_body_from = None\<rparr>) = [] \<and>
   handler (spec_deps example_config False [] None None None)
     \<lparr>action = ''edited'', pr_body = example_body, changes_body_from = Some ''Fixes a bug.''\<rparr> =
   throw TypeError"
proof -
  let ?D = "spec_deps example_config False [] None None None"
  let ?c1 = "\<lparr>action = ''edited'', pr_body = ''Fixes a bug.'', changes_body_from = None\<rparr>"
  let ?c2 = "\<lparr>action = ''edited'', pr_body = example_body, changes_body_from = Some ''Fixes a bug.''\<rparr>"
  have n: "\<not> sublist MessageStart ''Fixes a bug.''"
    by code_simp
  have s: "sublist MessageStart example_body"
    by code_simp
  have r: "\<not> sublist MessageStart '' unfinished''" "\<not> sublist MessageEnd '' unfinished''"
    by code_simp+
  have c: "getConfig ?D ?c2 = Inr example_config"
    by (simp add: spec_deps_def)
  note t = parseMessage_start_marker [where body = "''Fixes a bug.''" and body' = example_body
      and A = "''Fixes a bug.''" and rest = "'' unfinished''"
      and ctx = ?c1 and ctx' = ?c2 and D = ?D and D' = ?D and config = example_config
      and old = "''Fixes a bug.''"]
  from t n s r c show ?thesis
    by simp
qed

text \<open>
  A body with the start marker and without the end marker does not make \<open>parseMessage\<close>
  throw: it returns everything after the start marker.
\<close>

theorem parseMessage_end_absent_counterexample:
  "sublist MessageStart (''Text '' @ MessageStart @ '' unfinished'') \<and>
   \<not> sublist MessageEnd (''Text '' @ MessageStart @ '' unfinished'') \<and>
   parseMessage (''Text '' @ MessageStart @ '' unfinished'') = Inr '' unfinished''"
  by code_simp

section \<open>The handler\<close>

text \<open>
  Claim C4. On an \<open>edited\<close>, \<open>labeled\<close> or \<open>unlabeled\<close> event for which
  \<open>sentByThisApp\<close> answers true, the handler issues no call at all: no label is added or
  removed and no body is written, whatever the payload holds.
\<close>

theorem handler_self_authored:
  assumes "action ctx = ''edited'' \<or> action ctx = ''labeled'' \<or> action ctx = ''unlabeled''"
    and "sentByThisApp D ctx = Inr True"
  shows "calls (handler D ctx) = []"
  using assms
  by (auto simp: handler_def edited_flow_def labeled_flow_def throw_def no_action_def Let_def
      split: sum.splits bool.splits)

text \<open>
  An instance: an edit of the checklist that the application itself sent.
\<close>

theorem handler_self_authored_witness:
  "sentByThisApp (spec_deps example_config True [] None None None)
     \<lparr>action = ''edited'', pr_body = example_body,
      changes_body_from = Some example_previous_body\<rparr> = Inr True \<and>
   calls (handler (spec_deps example_config True [] None None None)
     \<lparr>action = ''edited'', pr_body = example_body,
      changes_body_from = Some example_previous_body\<rparr>) = []"
proof -
  let ?D = "spec_deps example_config True [] None None None"
  let ?c = "\<lparr>action = ''edited'', pr_body = example_body,
      changes_body_from = Some example_previous_body\<rparr>"
  have s: "sentByThisApp ?D ?c = Inr True"
    by (simp add: spec_deps_def)
  have "calls (handler ?D ?c) = []"
    by (rule handler_self_authored [OF _ s]) simp
  with s show ?thesis
    by (intro conjI)
qed

text \<open>
  Claim C7. On an \<open>opened\<close> event of a pull request that already has a release label,
  the handler does nothing: it issues no call and throws nothing.
\<close>

theorem handler_opened_with_release_label:
  assumes "action ctx = ''opened''" and "getConfig D ctx = Inr config"
    and "hasReleaseLabels D (getLabelRelease D ctx config)"
  shows "handler D ctx = no_action"
  using assms by (simp add: handler_def)

text \<open>
  An instance: a pull request opened with the label \<open>minor\<close>.
\<close>

theorem handler_opened_with_release_label_witness:
  "hasReleaseLabels (spec_deps example_config False [''minor''] None None None)
     (getLabelRelease (spec_deps example_config False [''minor''] None None None)
        \<lparr>action = ''opened'', pr_body = ''Fixes a bug.'', changes_body_from = None\<rparr>
        example_config) \<and>
   handler (spec_deps example_config False [''minor''] None None None)
     \<lparr>action = ''opened'', pr_body = ''Fixes a bug.'', changes_body_from = None\<rparr> = no_action"
proof -
  let ?D = "spec_deps example_config False [''minor''] None None None"
  let ?c = "\<lparr>action = ''opened'', pr_body = ''Fixes a bug.'', changes_body_from = None\<rparr>"
  have c: "getConfig ?D ?c = Inr example_config"
    by (simp add: spec_deps_def)
  have r: "hasReleaseLabels ?D (getLabelRelease ?D ?c example_config)"
    by code_simp
  have "handler ?D ?c = no_action"
    by (rule handler_opened_with_release_label [OF _ c r]) simp
  with r show ?thesis
    by (intro conjI)
qed

text \<open>
  Claim C6. On a \<open>labeled\<close> or \<open>unlabeled\<close> event of a pull request whose body has the
  start marker and that the application did not send itself, where exactly one of the three
  semver labels is attached: every item is rendered with its box ticked exactly when its label
  is attached, so exactly that one semver item is checked, whatever the body had ticked; the
  handler writes the body with the message of these items spliced in when the checklists of
  the message differ from those of the message in the body, and does nothing otherwise; and it
  adds and removes no label.
\<close>

theorem labeled_checklist_from_attached_labels:
  fixes D :: "('lc, 'x, 'gl, 'rel) deps"
  assumes cfg: "getConfig D ctx = Inr config"
    and act: "action ctx = ''labeled'' \<or> action ctx = ''unlabeled''"
    and onb: "isOnboarding ctx"
    and sent: "sentByThisApp D ctx = Inr False"
    and repo: "listLabelsForRepo D ctx = Inr labels'"
    and major: "populateLabel D ''major'' (labels config ''major'') ctx labels' = Inr lmajor"
    and minor: "populateLabel D ''minor'' (labels config ''minor'') ctx labels' = Inr lminor"
    and patch: "populateLabel D ''patch'' (labels config ''patch'') ctx labels' = Inr lpatch"
    and skips: "promise_all
        (\<lambda>labelConfig. populateLabel D ''skip-release'' (Some labelConfig) ctx labels')
        (getSkipReleaseLabelsFromConfig D config) = Inr skipLabels"
    and one: "filter (\<lambda>l. label_name l \<in> set (map (labelToString D) (getLabelsOnPR D ctx)))
        [lmajor, lminor, lpatch] = [l]"
  defines "item \<equiv> (\<lambda>l. \<lparr>item_id = hash D (label_name l),
      checked = (label_name l \<in> set (map (labelToString D) (getLabelsOnPR D ctx))),
      item_body = renderLabel D l\<rparr>)"
  defines "semverItems \<equiv> map item [lmajor, lminor, lpatch]"
  defines "skipItems \<equiv> map item skipLabels"
  defines "newMessage \<equiv> onBoardingMessage
      [section' D (semverHead D) (createAutoChecklist D semver semverItems)
         (semverWarnings D semverItems),
       section' D (skipReleaseHead D) (createAutoChecklist D skipRelease skipItems)
         (skipReleaseWarnings D skipItems)]"
  shows "filter checked semverItems = [item l] \<and>
     (\<exists>oldMessage body.
        parseMessage (pr_body ctx) = Inr oldMessage \<and>
        overwriteMessage ctx newMessage = Inr body \<and>
        handler D ctx =
          (if didChecklistsChange D newMessage oldMessage
           then (case pulls_update D ctx body of
                   None \<Rightarrow> \<lparr>calls = [PullsUpdate body], thrown = None\<rparr>
                 | Some updateBodyError \<Rightarrow>
                     \<lparr>calls = [PullsUpdate body,
                               LogError ''Failed to update body after label updates'' None],
                      thrown = Some updateBodyError\<rparr>)
           else no_action)) \<and>
     list_all (\<lambda>c. case c of AddLabels _ \<Rightarrow> False | RemoveLabels _ \<Rightarrow> False | _ \<Rightarrow> True)
       (calls (handler D ctx))"
proof (intro conjI)
  show "list_all (\<lambda>c. case c of AddLabels _ \<Rightarrow> False | RemoveLabels _ \<Rightarrow> False | _ \<Rightarrow> True)
      (calls (handler D ctx))"
    using act by (rule handler_labeled_no_label_calls)
next
  have "filter checked (map item [lmajor, lminor, lpatch]) =
      map item (filter (\<lambda>l. label_name l \<in> set (map (labelToString D) (getLabelsOnPR D ctx)))
        [lmajor, lminor, lpatch])"
    unfolding filter_map by (simp add: item_def comp_def)
  with one show "filter checked semverItems = [item l]"
    by (simp add: semverItems_def)
next
  define prLabels where "prLabels = map (labelToString D) (getLabelsOnPR D ctx)"
  define cl where "cl = parseAutoChecklists D (pr_body ctx)"
  have it: "checklistItem D cl key True prLabels = item" for key
    by (rule ext) (simp add: checklistItem_useLabels item_def prLabels_def)
  have sem: "semverChecklistItems D ctx config True labels' prLabels cl = Inr semverItems"
    using major minor patch by (simp add: semverChecklistItems_def it semverItems_def)
  have skp: "skipReleaseChecklistItems D ctx config True labels' prLabels cl = Inr skipItems"
    unfolding skipReleaseChecklistItems_def it skipItems_def
    using skips by (rule promise_all_map)
  have secs: "createLabelChecklists D ctx config True =
      Inr [section' D (semverHead D) (createAutoChecklist D semver semverItems)
             (semverWarnings D semverItems),
           section' D (skipReleaseHead D) (createAutoChecklist D skipRelease skipItems)
             (skipReleaseWarnings D skipItems)]"
    using repo sem skp
    by (simp add: createLabelChecklists_def Let_def prLabels_def cl_def)
  obtain oldMessage where old: "parseMessage (pr_body ctx) = Inr oldMessage"
    using parseMessage_onboarding [OF onb] by blast
  obtain body where body: "overwriteMessage ctx newMessage = Inr body"
    using overwriteMessage_onboarding [OF onb] by blast
  have "handler D ctx = labeled_flow D ctx config"
    using cfg act onb by (rule handler_labeled)
  also have "\<dots> =
      (if didChecklistsChange D newMessage oldMessage
       then (case pulls_update D ctx body of
               None \<Rightarrow> \<lparr>calls = [PullsUpdate body], thrown = None\<rparr>
             | Some updateBodyError \<Rightarrow>
                 \<lparr>calls = [PullsUpdate body,
                           LogError ''Failed to update body after label updates'' None],
                  thrown = Some updateBodyError\<rparr>)
       else no_action)"
    using sent secs old body
    by (simp add: labeled_flow_def Let_def newMessage_def split: option.splits)
  finally show "\<exists>oldMessage body.
        parseMessage (pr_body ctx) = Inr oldMessage \<and>
        overwriteMessage ctx newMessage = Inr body \<and>
        handler D ctx =
          (if didChecklistsChange D newMessage oldMessage
           then (case pulls_update D ctx body of
                   None \<Rightarrow> \<lparr>calls = [PullsUpdate body], thrown = None\<rparr>
                 | Some updateBodyError \<Rightarrow>
                     \<lparr>calls = [PullsUpdate body,
                               LogError ''Failed to update body after label updates'' None],
                      thrown = Some updateBodyError\<rparr>)
           else no_action)"
    using old body by blast
qed

text \<open>
  An instance: the label \<open>minor\<close> is attached while the body has \<open>major\<close> and
  \<open>minor\<close> ticked; the handler writes the body with only \<open>minor\<close> ticked.
\<close>

theorem labeled_checklist_from_attached_labels_witness:
  "isOnboarding \<lparr>action = ''labeled'', pr_body = example_body, changes_body_from = None\<rparr> \<and>
   filter (\<lambda>l. label_name l \<in> set [''minor''])
     [\<lparr>label_name = ''major'', label_description = None, label_color = None\<rparr>,
      \<lparr>label_name = ''minor'', label_description = None, label_color = None\<rparr>,
      \<lparr>label_name = ''patch'', label_description = None, label_color = None\<rparr>] =
     [\<lparr>label_name = ''minor'', label_description = None, label_color = None\<rparr>] \<and>
   handler (spec_deps example_config False [''minor''] None None None)
     \<lparr>action = ''labeled'', pr_body = example_body, changes_body_from = None\<rparr> =
     \<lparr>calls = [PullsUpdate (''Fixes a bug.\<newline>'' @
        messageWrapper (onBoardingMessage
          [section' (spec_deps example_config False [''minor''] None None None)
             (semverHead (spec_deps example_config False [''minor''] None None None))
             (createAutoChecklist (spec_deps example_config False [''minor''] None None None)
                semver
                [\<lparr>item_id = ''major'', checked = False, item_body = ''major''\<rparr>,
                 \<lparr>item_id = ''minor'', checked = True, item_body = ''minor''\<rparr>,
                 \<lparr>item_id = ''patch'', checked = False, item_body = ''patch''\<rparr>])
             None,
           section' (spec_deps example_config False [''minor''] None None None)
             (skipReleaseHead (spec_deps example_config False [''minor''] None None None))
             (createAutoChecklist (spec_deps example_config False [''minor''] None None None)
                skipRelease [])
             None]))],
      thrown = None\<rparr>"
proof -
  let ?D = "spec_deps example_config False [''minor''] None None None"
  let ?c = "\<lparr>action = ''labeled'', pr_body = example_body, changes_body_from = None\<rparr>"
  let ?l = "\<lambda>n. \<lparr>label_name = n, label_description = None, label_color = None\<rparr>"
  let ?its = "[\<lparr>item_id = ''major'', checked = False, item_body = ''major''\<rparr>,
      \<lparr>item_id = ''minor'', checked = True, item_body = ''minor''\<rparr>,
      \<lparr>item_id = ''patch'', checked = False, item_body = ''patch''\<rparr>]"
  let ?nm = "onBoardingMessage
      [section' ?D (semverHead ?D) (createAutoChecklist ?D semver ?its) None,
       section' ?D (skipReleaseHead ?D) (createAutoChecklist ?D skipRelease []) None]"
  let ?msg = "''\<newline><!-- checklist:autobot:semver -->\<newline>- [x] <!-- major --> major\<newline>- [x] <!-- minor --> minor\<newline>- [ ] <!-- patch --> patch\<newline>''"
  have cfg: "getConfig ?D ?c = Inr example_config" and sent: "sentByThisApp ?D ?c = Inr False"
    and repo: "listLabelsForRepo ?D ?c = Inr []"
    by (simp_all add: spec_deps_sel)
  have onb: "isOnboarding ?c"
    by code_simp
  have p: "populateLabel ?D ''major'' (labels example_config ''major'') ?c [] = Inr (?l ''major'')"
    "populateLabel ?D ''minor'' (labels example_config ''minor'') ?c [] = Inr (?l ''minor'')"
    "populateLabel ?D ''patch'' (labels example_config ''patch'') ?c [] = Inr (?l ''patch'')"
    by (simp_all add: spec_deps_sel example_config_def spec_labelName_def)
  have skips: "promise_all
      (\<lambda>labelConfig. populateLabel ?D ''skip-release'' (Some labelConfig) ?c [])
      (getSkipReleaseLabelsFromConfig ?D example_config) = Inr []"
    by (simp add: spec_deps_sel spec_skipReleaseLabels_def example_config_def)
  have a: "map (labelToString ?D) (getLabelsOnPR ?D ?c) = [''minor'']"
    by (simp add: spec_deps_attached)
  have one: "filter (\<lambda>l. label_name l \<in> set (map (labelToString ?D) (getLabelsOnPR ?D ?c)))
      [?l ''major'', ?l ''minor'', ?l ''patch''] = [?l ''minor'']"
    unfolding a by simp
  have w: "semverWarnings ?D ?its = None" "skipReleaseWarnings ?D [] = None"
    by (simp_all add: semverWarnings_def skipReleaseWarnings_def spec_deps_sel
        spec_moreThanOneItemChecked_def)
  have body: "example_body = ''Fixes a bug.\<newline>'' @ MessageStart @ ?msg @ MessageEnd @ []"
    by (simp add: example_body_def)
  have n: "\<not> sublist MessageStart ''Fixes a bug.\<newline>''"
    "\<not> sublist MessageStart ?msg" "\<not> sublist MessageEnd ?msg"
    "\<not> sublist MessageStart []" "\<not> sublist MessageEnd []"
    by code_simp+
  have old: "parseMessage (pr_body ?c) = Inr ?msg"
    using parseMessage_envelope [OF n(1,2,3,4)] by (simp add: body)
  have new: "overwriteMessage ?c y = Inr (''Fixes a bug.\<newline>'' @ messageWrapper y)" for y
    using overwriteMessage_envelope [OF n, where ctx = ?c and y = y] by (simp add: body)
  have changed: "didChecklistsChange ?D ?nm ?msg"
    by code_simp
  have u: "pulls_update ?D ?c b = None" for b
    by (simp add: spec_deps_sel)
  note t = labeled_checklist_from_attached_labels [OF cfg _ onb sent repo p skips one]
  have "handler ?D ?c = \<lparr>calls = [PullsUpdate (''Fixes a bug.\<newline>'' @ messageWrapper ?nm)],
      thrown = None\<rparr>"
    using t changed unfolding a old new u
    by (simp add: spec_deps_sel w)
  with onb one show ?thesis
    unfolding a by (intro conjI)
qed

text \<open>
  Claim C10. When \<open>getRequiredLabelChanges\<close> returns, the message of the body was parsed,
  and with the items of the \<open>semver\<close> and \<open>skipRelease\<close> checklists in order,
  \<open>labelsToAdd\<close> holds the labels of the checked items whose identifier resolves to a
  non-empty label and \<open>labelsToRemove\<close> those of the unchecked ones; an item that resolves
  to no label is in neither list. The two lists are disjoint when no identifier occurs both
  checked and unchecked and distinct identifiers resolve to distinct labels.
\<close>

theorem getRequiredLabelChanges_partition:
  fixes D :: "('lc, 'x, 'gl, 'rel) deps"
  assumes "getRequiredLabelChanges D body config = Inr changes"
  defines "resolve \<equiv> (\<lambda>i. findLabelFromHash D (item_id i) config)"
  shows "\<exists>message. parseMessage body = Inr message \<and>
     (let its = checklistItems (parseAutoChecklists D message)
      in labelsToAdd changes =
           map (\<lambda>i. the (resolve i)) (filter (\<lambda>i. checked i \<and> truthy (resolve i)) its) \<and>
         labelsToRemove changes =
           map (\<lambda>i. the (resolve i)) (filter (\<lambda>i. \<not> checked i \<and> truthy (resolve i)) its) \<and>
         ((\<forall>i\<in>set its. \<forall>j\<in>set its. item_id i = item_id j \<longrightarrow> checked i = checked j) \<and>
          (\<forall>i\<in>set its. \<forall>j\<in>set its. truthy (resolve i) \<and> resolve i = resolve j \<longrightarrow>
             item_id i = item_id j) \<longrightarrow>
          set (labelsToAdd changes) \<inter> set (labelsToRemove changes) = {}))"
proof -
  from assms(1) obtain message where m: "parseMessage body = Inr message"
    by (auto simp: getRequiredLabelChanges_def split: sum.splits)
  define its where "its = checklistItems (parseAutoChecklists D message)"
  have fm: "map the (filter truthy (map f (filter P xs))) =
      map (\<lambda>i. the (f i)) (filter (\<lambda>i. P i \<and> truthy (f i)) xs)" for f P and xs :: "ChecklistItem list"
    by (induction xs) auto
  have add: "labelsToAdd changes =
      map (\<lambda>i. the (resolve i)) (filter (\<lambda>i. checked i \<and> truthy (resolve i)) its)"
    using assms(1) m fm [of resolve checked its]
    by (auto simp: getRequiredLabelChanges_def Let_def its_def resolve_def
        getLabelTextFromChecklistItem_def)
  have rem: "labelsToRemove changes =
      map (\<lambda>i. the (resolve i)) (filter (\<lambda>i. \<not> checked i \<and> truthy (resolve i)) its)"
    using assms(1) m fm [of resolve "\<lambda>i. \<not> checked i" its]
    by (auto simp: getRequiredLabelChanges_def Let_def its_def resolve_def
        getLabelTextFromChecklistItem_def)
  have disj: "set (labelsToAdd changes) \<inter> set (labelsToRemove changes) = {}"
    if same: "\<forall>i\<in>set its. \<forall>j\<in>set its. item_id i = item_id j \<longrightarrow> checked i = checked j"
      and inj: "\<forall>i\<in>set its. \<forall>j\<in>set its. truthy (resolve i) \<and> resolve i = resolve j \<longrightarrow>
        item_id i = item_id j"
  proof (rule ccontr)
    assume "set (labelsToAdd changes) \<inter> set (labelsToRemove changes) \<noteq> {}"
    then obtain l where "l \<in> set (labelsToAdd changes)" "l \<in> set (labelsToRemove changes)"
      by blast
    then obtain i j where i: "i \<in> set its" "checked i" "truthy (resolve i)" "l = the (resolve i)"
      and j: "j \<in> set its" "\<not> checked j" "truthy (resolve j)" "l = the (resolve j)"
      unfolding add rem by auto
    from i(3,4) j(3,4) have "resolve i = resolve j"
      by (auto simp: truthy_def split: option.splits)
    with inj i(1,3) j(1) have "item_id i = item_id j"
      by blast
    with same i(1) j(1) have "checked i = checked j"
      by blast
    with i(2) j(2) show False
      by simp
  qed
  from m add rem disj show ?thesis
    unfolding its_def Let_def by blast
qed

text \<open>
  An instance: the new example body.
\<close>

theorem getRequiredLabelChanges_partition_witness:
  "getRequiredLabelChanges (spec_deps example_config False [] None None None)
     example_body example_config =
     Inr \<lparr>labelsToAdd = [''major'', ''minor''], labelsToRemove = [''patch'']\<rparr> \<and>
   (\<exists>message. parseMessage example_body = Inr message \<and>
      checklistItems
        (parseAutoChecklists (spec_deps example_config False [] None None None) message) =
      [\<lparr>item_id = ''major'', checked = True, item_body = ''major''\<rparr>,
       \<lparr>item_id = ''minor'', checked = True, item_body = ''minor''\<rparr>,
       \<lparr>item_id = ''patch'', checked = False, item_body = ''patch''\<rparr>]) \<and>
   set [''major'', ''minor''] \<inter> set [''patch''] = ({} :: string set)"
proof -
  let ?D = "spec_deps example_config False [] None None None"
  let ?ch = "\<lparr>labelsToAdd = [''major'', ''minor''], labelsToRemove = [''patch'']\<rparr>"
  let ?its = "[\<lparr>item_id = ''major'', checked = True, item_body = ''major''\<rparr>,
       \<lparr>item_id = ''minor'', checked = True, item_body = ''minor''\<rparr>,
       \<lparr>item_id = ''patch'', checked = False, item_body = ''patch''\<rparr>]"
  have g: "getRequiredLabelChanges ?D example_body example_config = Inr ?ch"
    by code_simp
  have its: "case parseMessage example_body of
      Inr message \<Rightarrow> checklistItems (parseAutoChecklists ?D message) = ?its | Inl _ \<Rightarrow> False"
    by code_simp
  have r: "findLabelFromHash ?D ''major'' example_config = Some ''major''"
    "findLabelFromHash ?D ''minor'' example_config = Some ''minor''"
    "findLabelFromHash ?D ''patch'' example_config = Some ''patch''"
    by code_simp+
  from getRequiredLabelChanges_partition [OF g] obtain message where
    m: "parseMessage example_body = Inr message"
    and d: "(\<forall>i\<in>set (checklistItems (parseAutoChecklists ?D message)).
          \<forall>j\<in>set (checklistItems (parseAutoChecklists ?D message)).
            item_id i = item_id j \<longrightarrow> checked i = checked j) \<and>
       (\<forall>i\<in>set (checklistItems (parseAutoChecklists ?D message)).
          \<forall>j\<in>set (checklistItems (parseAutoChecklists ?D message)).
            truthy (findLabelFromHash ?D (item_id i) example_config) \<and>
            findLabelFromHash ?D (item_id i) example_config =
            findLabelFromHash ?D (item_id j) example_config \<longrightarrow>
            item_id i = item_id j) \<longrightarrow>
       set (labelsToAdd ?ch) \<inter> set (labelsToRemove ?ch) = {}"
    unfolding Let_def by blast
  from its m have i: "checklistItems (parseAutoChecklists ?D message) = ?its"
    by simp
  have "set (labelsToAdd ?ch) \<inter> set (labelsToRemove ?ch) = {}"
    by (rule d [THEN mp]) (simp add: i r)
  with g m i show ?thesis
    by auto
qed

text \<open>
  Distinct identifiers that resolve to distinct labels are not enough for the lists to be
  disjoint: when the same identifier is ticked in one checklist and not in the other, its
  label is in both lists.
\<close>

theorem getRequiredLabelChanges_partition_counterexample:
  "getRequiredLabelChanges (spec_deps example_overlap_config False [] None None None)
     example_overlap_body example_overlap_config =
     Inr \<lparr>labelsToAdd = [''patch''], labelsToRemove = [''major'', ''minor'', ''patch'']\<rparr> \<and>
   findLabelFromHash (spec_deps example_overlap_config False [] None None None) ''major''
     example_overlap_config = Some ''major'' \<and>
   findLabelFromHash (spec_deps example_overlap_config False [] None None None) ''minor''
     example_overlap_config = Some ''minor'' \<and>
   findLabelFromHash (spec_deps example_overlap_config False [] None None None) ''patch''
     example_overlap_config = Some ''patch''"
  by code_simp

text \<open>
  Claim C1. On an \<open>edited\<close> event that reaches the edited branch, where the semver
  checklist embedded in the new body has the items of two of the three semver labels ticked
  and the item of the third not, and the previous message had exactly one semver item
  checked: the semver section is rendered with the warning, and the handler first adds the
  labels of both ticked items, then removes the label of the third, and then writes the body.
  The handler reads the label changes from the body it has just rendered, so the collaborators
  are assumed to read the rendered checklists back as they were rendered, to resolve the
  identifiers of the three items to their labels, and to say with \<open>moreThanOneItemChecked\<close>
  whether more than one item is checked.
\<close>

theorem handler_edited_two_semver_ticked:
  fixes D :: "('lc, 'x, 'gl, 'rel) deps"
  assumes cfg: "getConfig D ctx = Inr config"
    and act: "action ctx = ''edited''"
    and onb: "isOnboarding ctx"
    and chg: "didMessageChange ctx = Inr True"
    and sent: "sentByThisApp D ctx = Inr False"
    and repo: "listLabelsForRepo D ctx = Inr labels'"
    and major: "populateLabel D ''major'' (labels config ''major'') ctx labels' = Inr lmajor"
    and minor: "populateLabel D ''minor'' (labels config ''minor'') ctx labels' = Inr lminor"
    and patch: "populateLabel D ''patch'' (labels config ''patch'') ctx labels' = Inr lpatch"
    and skips: "promise_all
        (\<lambda>labelConfig. populateLabel D ''skip-release'' (Some labelConfig) ctx labels')
        (getSkipReleaseLabelsFromConfig D config) = Inr skipLabels"
    and embedded: "map_of (parseAutoChecklists D (pr_body ctx)) semver = Some embedded"
  defines "ticked \<equiv> (\<lambda>l. case find (\<lambda>i. item_id i = hash D (label_name l)) (items embedded) of
                            Some i \<Rightarrow> checked i
                          | None \<Rightarrow> False)"
  assumes two: "filter ticked [lmajor, lminor, lpatch] = [la, lb]"
    and one: "filter (\<lambda>l. \<not> ticked l) [lmajor, lminor, lpatch] = [lc]"
    and contract: "\<And>its. moreThanOneItemChecked D its = (1 < length (filter checked its))"
    and resolver: "list_all
        (\<lambda>l. findLabelFromHash D (hash D (label_name l)) config = Some (label_name l) \<and>
             label_name l \<noteq> [])
        [lmajor, lminor, lpatch]"
    and prev: "changes_body_from ctx = Some from'" "parseMessage from' = Inr oldMessage"
      "map_of (parseAutoChecklists D oldMessage) semver = Some previous"
      "length (filter checked (items previous)) = 1"
  defines "semverItems \<equiv>
      map (\<lambda>l. \<lparr>item_id = hash D (label_name l), checked = ticked l,
                 item_body = renderLabel D l\<rparr>)
        [lmajor, lminor, lpatch]"
  defines "skipItems \<equiv>
      map (checklistItem D (parseAutoChecklists D (pr_body ctx)) skipRelease False [])
        skipLabels"
  defines "sections \<equiv>
      [section' D (semverHead D) (createAutoChecklist D semver semverItems)
         (Some ''At most one semver label should be selected''),
       section' D (skipReleaseHead D) (createAutoChecklist D skipRelease skipItems)
         (skipReleaseWarnings D skipItems)]"
  assumes rendered: "map_of (parseAutoChecklists D (onBoardingMessage sections)) semver =
        Some \<lparr>checklist_id = semver, items = semverItems\<rparr>"
    and written: "overwriteMessage ctx (onBoardingMessage sections) = Inr body"
    and reread: "parseMessage body = Inr message"
      "checklistItems (parseAutoChecklists D message) = semverItems @ skipItems"
  defines "resolved \<equiv>
      (\<lambda>its. map the (filter truthy (map (\<lambda>i. findLabelFromHash D (item_id i) config) its)))"
  shows "createLabelChecklists D ctx config False = Inr sections \<and>
     take 3 (calls (handler D ctx)) =
       [AddLabels ([label_name la, label_name lb] @ resolved (filter checked skipItems)),
        RemoveLabels ([label_name lc] @ resolved (filter (\<lambda>i. \<not> checked i) skipItems)),
        PullsUpdate body]"
proof -
  define cl where "cl = parseAutoChecklists D (pr_body ctx)"
  define item where "item = (\<lambda>l. \<lparr>item_id = hash D (label_name l), checked = ticked l,
      item_body = renderLabel D l\<rparr>)"
  have it: "checklistItem D cl semver False [] = item"
    using embedded by (intro ext) (simp add: checklistItem_embedded cl_def item_def ticked_def)
  have si: "semverItems = map item [lmajor, lminor, lpatch]"
    by (simp add: semverItems_def item_def)
  have sem: "semverChecklistItems D ctx config False labels' [] cl = Inr semverItems"
    using major minor patch by (simp add: semverChecklistItems_def it si)
  have skp: "skipReleaseChecklistItems D ctx config False labels' [] cl = Inr skipItems"
    unfolding skipReleaseChecklistItems_def skipItems_def cl_def [symmetric]
    using skips by (rule promise_all_map)
  have fc: "filter checked semverItems = map item [la, lb]"
    unfolding si filter_map using two by (simp add: comp_def item_def)
  have fu: "filter (\<lambda>i. \<not> checked i) semverItems = map item [lc]"
    unfolding si filter_map using one by (simp add: comp_def item_def)
  have "moreThanOneItemChecked D semverItems"
    by (simp add: contract fc)
  then have secs: "createLabelChecklists D ctx config False = Inr sections"
    using repo sem skp
    by (simp add: createLabelChecklists_def Let_def cl_def semverWarnings_def sections_def)
  have changed: "didChecklistsChange D (onBoardingMessage sections) oldMessage"
  proof -
    have False if "isEqual (parseAutoChecklists D (onBoardingMessage sections))
        (parseAutoChecklists D oldMessage)"
    proof -
      from isEqual_map_of [OF that rendered] prev(3)
      have "items previous = semverItems"
        by auto
      with prev(4) fc show False
        by simp
    qed
    then show ?thesis
      unfolding didChecklistsChange_def by blast
  qed
  have mem: "set [la, lb] \<subseteq> set [lmajor, lminor, lpatch]" "set [lc] \<subseteq> set [lmajor, lminor, lpatch]"
    using two [symmetric] one [symmetric] by (simp_all only: set_filter) auto
  have r: "findLabelFromHash D (item_id (item l)) config = Some (label_name l) \<and> label_name l \<noteq> []"
    if "l \<in> set [lmajor, lminor, lpatch]" for l
    using resolver that by (auto simp: item_def)
  have ra: "resolved (map item [la, lb]) = [label_name la, label_name lb]"
    using r [of la] r [of lb] mem(1) by (simp add: resolved_def truthy_def)
  have rc: "resolved (map item [lc]) = [label_name lc]"
    using r [of lc] mem(2) by (simp add: resolved_def truthy_def)
  have rapp: "resolved (xs @ ys) = resolved xs @ resolved ys" for xs ys
    by (simp add: resolved_def)
  have add: "resolved (filter checked (semverItems @ skipItems)) =
      [label_name la, label_name lb] @ resolved (filter checked skipItems)"
    by (simp add: rapp fc ra del: list.map)
  have rem: "resolved (filter (\<lambda>i. \<not> checked i) (semverItems @ skipItems)) =
      [label_name lc] @ resolved (filter (\<lambda>i. \<not> checked i) skipItems)"
    by (simp add: rapp fu rc del: list.map)
  have "getRequiredLabelChanges D body config =
      Inr \<lparr>labelsToAdd = resolved (filter checked (semverItems @ skipItems)),
           labelsToRemove = resolved (filter (\<lambda>i. \<not> checked i) (semverItems @ skipItems))\<rparr>"
    by (simp add: getRequiredLabelChanges_def reread Let_def getLabelTextFromChecklistItem_def
        resolved_def)
  then have grc: "getRequiredLabelChanges D body config =
      Inr \<lparr>labelsToAdd = [label_name la, label_name lb] @ resolved (filter checked skipItems),
           labelsToRemove = [label_name lc] @ resolved (filter (\<lambda>i. \<not> checked i) skipItems)\<rparr>"
    unfolding add rem .
  have "handler D ctx = edited_flow D ctx config"
    using cfg act onb chg by (rule handler_edited)
  moreover have "take 3 (calls (edited_flow D ctx config)) =
      [AddLabels ([label_name la, label_name lb] @ resolved (filter checked skipItems)),
       RemoveLabels ([label_name lc] @ resolved (filter (\<lambda>i. \<not> checked i) skipItems)),
       PullsUpdate body]"
    using sent secs written prev(1,2) changed grc
    by (simp add: edited_flow_def Let_def)
  ultimately show ?thesis
    using secs by simp
qed

text \<open>
  An instance: the new example body, where \<open>major\<close> was ticked before and \<open>minor\<close> is
  ticked now.
\<close>

theorem handler_edited_two_semver_ticked_witness:
  "isOnboarding \<lparr>action = ''edited'', pr_body = example_body,
      changes_body_from = Some example_previous_body\<rparr> \<and>
   didMessageChange \<lparr>action = ''edited'', pr_body = example_body,
      changes_body_from = Some example_previous_body\<rparr> = Inr True \<and>
   createLabelChecklists (spec_deps example_config False [] None None None)
     \<lparr>action = ''edited'', pr_body = example_body,
      changes_body_from = Some example_previous_body\<rparr> example_config False =
     Inr [section' (spec_deps example_config False [] None None None)
            (semverHead (spec_deps example_config False [] None None None))
            (createAutoChecklist (spec_deps example_config False [] None None None) semver
               [\<lparr>item_id = ''major'', checked = True, item_body = ''major''\<rparr>,
                \<lparr>item_id = ''minor'', checked = True, item_body = ''minor''\<rparr>,
                \<lparr>item_id = ''patch'', checked = False, item_body = ''patch''\<rparr>])
            (Some ''At most one semver label should be selected''),
          section' (spec_deps example_config False [] None None None)
            (skipReleaseHead (spec_deps example_config False [] None None None))
            (createAutoChecklist (spec_deps example_config False [] None None None)
               skipRelease [])
            None] \<and>
   take 3 (calls (handler (spec_deps example_config False [] None None None)
     \<lparr>action = ''edited'', pr_body = example_body,
      changes_body_from = Some example_previous_body\<rparr>)) =
     [AddLabels [''major'', ''minor''], RemoveLabels [''patch''],
      PullsUpdate (''Fixes a bug.\<newline>'' @
        messageWrapper (onBoardingMessage
          [section' (spec_deps example_config False [] None None None)
             (semverHead (spec_deps example_config False [] None None None))
             (createAutoChecklist (spec_deps example_config False [] None None None) semver
                [\<lparr>item_id = ''major'', checked = True, item_body = ''major''\<rparr>,
                 \<lparr>item_id = ''minor'', checked = True, item_body = ''minor''\<rparr>,
                 \<lparr>item_id = ''patch'', checked = False, item_body = ''patch''\<rparr>])
             (Some ''At most one semver label should be selected''),
           section' (spec_deps example_config False [] None None None)
             (skipReleaseHead (spec_deps example_config False [] None None None))
             (createAutoChecklist (spec_deps example_config False [] None None None)
                skipRelease [])
             None]))]"
proof -
  let ?D = "spec_deps example_config False [] None None None"
  let ?c = "\<lparr>action = ''edited'', pr_body = example_body,
      changes_body_from = Some example_previous_body\<rparr>"
  let ?l = "\<lambda>n. \<lparr>label_name = n, label_description = None, label_color = None\<rparr>"
  let ?its = "[\<lparr>item_id = ''major'', checked = True, item_body = ''major''\<rparr>,
      \<lparr>item_id = ''minor'', checked = True, item_body = ''minor''\<rparr>,
      \<lparr>item_id = ''patch'', checked = False, item_body = ''patch''\<rparr>]"
  let ?before = "[\<lparr>item_id = ''major'', checked = True, item_body = ''major''\<rparr>,
      \<lparr>item_id = ''minor'', checked = False, item_body = ''minor''\<rparr>,
      \<lparr>item_id = ''patch'', checked = False, item_body = ''patch''\<rparr>]"
  let ?nm = "onBoardingMessage
      [section' ?D (semverHead ?D) (createAutoChecklist ?D semver ?its)
         (Some ''At most one semver label should be selected''),
       section' ?D (skipReleaseHead ?D) (createAutoChecklist ?D skipRelease []) None]"
  let ?msg = "''\<newline><!-- checklist:autobot:semver -->\<newline>- [x] <!-- major --> major\<newline>- [x] <!-- minor --> minor\<newline>- [ ] <!-- patch --> patch\<newline>''"
  let ?old = "''\<newline><!-- checklist:autobot:semver -->\<newline>- [x] <!-- major --> major\<newline>- [ ] <!-- minor --> minor\<newline>- [ ] <!-- patch --> patch\<newline>''"
  let ?body = "''Fixes a bug.\<newline>'' @ messageWrapper ?nm"
  have onb: "isOnboarding ?c"
    by code_simp
  have chg: "didMessageChange ?c = Inr True"
    by code_simp
  have emb: "map_of (parseAutoChecklists ?D example_body) semver =
      Some \<lparr>checklist_id = semver, items = ?its\<rparr>"
    by code_simp
  have r: "list_all (\<lambda>n. find (\<lambda>m. m = n) (spec_labelNames example_config) = Some n)
      [''major'', ''minor'', ''patch'']"
    by code_simp
  have w: "skipReleaseWarnings ?D [] = None"
    by (simp add: skipReleaseWarnings_def spec_deps_sel spec_moreThanOneItemChecked_def)
  have k: "spec_skipReleaseLabels example_config = []"
    by (simp add: spec_skipReleaseLabels_def example_config_def)
  have lab: "labels example_config role = None" for role
    by (simp add: example_config_def)
  have body: "example_body = ''Fixes a bug.\<newline>'' @ MessageStart @ ?msg @ MessageEnd @ []"
    by (simp add: example_body_def)
  have n: "\<not> sublist MessageStart ''Fixes a bug.\<newline>''"
    "\<not> sublist MessageStart ?msg" "\<not> sublist MessageEnd ?msg"
    "\<not> sublist MessageStart []" "\<not> sublist MessageEnd []"
    by code_simp+
  have old: "parseMessage example_previous_body = Inr ?old"
    by code_simp
  have prev: "map_of (parseAutoChecklists ?D ?old) semver =
      Some \<lparr>checklist_id = semver, items = ?before\<rparr>"
    by code_simp
  have rendered: "map_of (parseAutoChecklists ?D ?nm) semver =
      Some \<lparr>checklist_id = semver, items = ?its\<rparr>"
    by code_simp
  have written: "overwriteMessage ?c ?nm = Inr ?body"
    using overwriteMessage_envelope [OF n, where ctx = ?c and y = ?nm] by (simp add: body)
  have "sublist MessageStart ?body"
    using messageWrapper_markers [of ?nm] by (metis sublist_appendI append.assoc)
  then obtain message where message: "parseMessage ?body = Inr message"
    using parseMessage_start by blast
  have "case parseMessage ?body of
      Inr m \<Rightarrow> checklistItems (parseAutoChecklists ?D m) = ?its | Inl _ \<Rightarrow> False"
    by code_simp
  with message have reread: "checklistItems (parseAutoChecklists ?D message) = ?its"
    by simp
  note t = handler_edited_two_semver_ticked [where D = ?D and ctx = ?c
      and config = example_config and labels' = "[]"
      and lmajor = "?l ''major''" and lminor = "?l ''minor''" and lpatch = "?l ''patch''"
      and skipLabels = "[]" and embedded = "\<lparr>checklist_id = semver, items = ?its\<rparr>"
      and la = "?l ''major''" and lb = "?l ''minor''" and lc = "?l ''patch''"
      and from' = example_previous_body and oldMessage = ?old
      and previous = "\<lparr>checklist_id = semver, items = ?before\<rparr>"
      and body = ?body and message = message]
  from t onb chg emb r prev rendered written message reread old
  have "createLabelChecklists ?D ?c example_config False =
      Inr [section' ?D (semverHead ?D) (createAutoChecklist ?D semver ?its)
             (Some ''At most one semver label should be selected''),
           section' ?D (skipReleaseHead ?D) (createAutoChecklist ?D skipRelease []) None] \<and>
    take 3 (calls (handler ?D ?c)) =
      [AddLabels [''major'', ''minor''], RemoveLabels [''patch''], PullsUpdate ?body]"
    by (simp add: spec_deps_sel spec_deps_attached spec_labelName_def lab w k
        spec_moreThanOneItemChecked_def truthy_def)
  with onb chg show ?thesis
    by (intro conjI) simp_all
qed

text \<open>
  The result is not a difference to the previous snapshot: \<open>major\<close> was ticked before and
  is added again, and the label of the unticked semver item \<open>patch\<close> is removed.
\<close>

theorem getRequiredLabelChanges_two_checked_counterexample:
  "getRequiredLabelChanges (spec_deps example_config False [] None None None)
     example_previous_body example_config =
     Inr \<lparr>labelsToAdd = [''major''], labelsToRemove = [''minor'', ''patch'']\<rparr> \<and>
   getRequiredLabelChanges (spec_deps example_config False [] None None None)
     example_body example_config =
     Inr \<lparr>labelsToAdd = [''major'', ''minor''], labelsToRemove = [''patch'']\<rparr>"
  by code_simp

text \<open>
  Claim C5. Once the edited branch has rendered the new message, the labels are added and
  removed when the checklists changed, each whether or not the other failed, and the body is
  written in every case; every failure is logged; and if any of them failed the handler
  throws one error with a fixed message after all of them.
\<close>

theorem edited_failure_composition:
  fixes D :: "('lc, 'x, 'gl, 'rel) deps"
  assumes cfg: "getConfig D ctx = Inr config"
    and act: "action ctx = ''edited''"
    and onb: "isOnboarding ctx"
    and chg: "didMessageChange ctx = Inr True"
    and sent: "sentByThisApp D ctx = Inr False"
    and secs: "createLabelChecklists D ctx config False = Inr sections"
  shows "\<exists>body from' oldMessage changes.
     overwriteMessage ctx (onBoardingMessage sections) = Inr body \<and>
     changes_body_from ctx = Some from' \<and> parseMessage from' = Inr oldMessage \<and>
     getRequiredLabelChanges D body config = Inr changes \<and>
     (let changed = didChecklistsChange D (onBoardingMessage sections) oldMessage;
          addLabelsError =
            (if changed then addLabelsToPR D ctx (labelsToAdd changes) else None);
          removeLabelsError =
            (if changed then removeLabelsFromPR D ctx (labelsToRemove changes) else None);
          updateBodyError = pulls_update D ctx body
      in calls (handler D ctx) =
           (if changed
            then [AddLabels (labelsToAdd changes), RemoveLabels (labelsToRemove changes)]
            else []) @
           [PullsUpdate body] @
           (if addLabelsError \<noteq> None
            then [LogError ''Error when trying to add labels'' addLabelsError] else []) @
           (if removeLabelsError \<noteq> None
            then [LogError ''Error when trying to remove labels'' removeLabelsError] else []) @
           (if updateBodyError \<noteq> None
            then [LogError ''Error when trying to update the body'' updateBodyError] else []) \<and>
         thrown (handler D ctx) =
           (if addLabelsError \<noteq> None \<or> removeLabelsError \<noteq> None \<or> updateBodyError \<noteq> None
            then Some (Error
              ''Encountered issue after checklist edit, see log above for details'')
            else None))"
  using assms by (rule edited_flow_reached)

text \<open>
  An instance: the update of the body fails.
\<close>

theorem edited_failure_composition_witness:
  "isOnboarding \<lparr>action = ''edited'', pr_body = example_body,
      changes_body_from = Some example_previous_body\<rparr> \<and>
   didMessageChange \<lparr>action = ''edited'', pr_body = example_body,
      changes_body_from = Some example_previous_body\<rparr> = Inr True \<and>
   thrown (handler
     (spec_deps example_config False [] None None (Some (Rejected ''update failed'')))
     \<lparr>action = ''edited'', pr_body = example_body,
      changes_body_from = Some example_previous_body\<rparr>) =
     Some (Error ''Encountered issue after checklist edit, see log above for details'') \<and>
   LogError ''Error when trying to update the body'' (Some (Rejected ''update failed''))
     \<in> set (calls (handler
       (spec_deps example_config False [] None None (Some (Rejected ''update failed'')))
       \<lparr>action = ''edited'', pr_body = example_body,
        changes_body_from = Some example_previous_body\<rparr>))"
proof -
  let ?D = "spec_deps example_config False [] None None (Some (Rejected ''update failed''))"
  let ?c = "\<lparr>action = ''edited'', pr_body = example_body,
      changes_body_from = Some example_previous_body\<rparr>"
  have onb: "isOnboarding ?c"
    by code_simp
  have chg: "didMessageChange ?c = Inr True"
    by code_simp
  obtain sections where secs: "createLabelChecklists ?D ?c example_config False = Inr sections"
    using spec_deps_sections by blast
  have cfg: "getConfig ?D ?c = Inr example_config" and sent: "sentByThisApp ?D ?c = Inr False"
    by (simp_all add: spec_deps_sel)
  have u: "pulls_update ?D ?c body = Some (Rejected ''update failed'')" for body
    by (simp add: spec_deps_sel)
  from edited_failure_composition [OF cfg _ onb chg sent secs]
  have "thrown (handler ?D ?c) =
      Some (Error ''Encountered issue after checklist edit, see log above for details'') \<and>
    LogError ''Error when trying to update the body'' (Some (Rejected ''update failed''))
      \<in> set (calls (handler ?D ?c))"
    unfolding Let_def u by auto
  with onb chg show ?thesis
    by simp
qed

text \<open>
  The error that is thrown does not carry the failures: it is the same value whichever
  failure the update of the body reported.
\<close>

theorem edited_failure_composition_counterexample:
  "thrown (handler
     (spec_deps example_config False [] None None (Some (Rejected ''timeout'')))
     \<lparr>action = ''edited'', pr_body = example_body,
      changes_body_from = Some example_previous_body\<rparr>) =
     Some (Error ''Encountered issue after checklist edit, see log above for details'') \<and>
   thrown (handler
     (spec_deps example_config False [] None None (Some (Rejected ''forbidden'')))
     \<lparr>action = ''edited'', pr_body = example_body,
      changes_body_from = Some example_previous_body\<rparr>) =
     Some (Error ''Encountered issue after checklist edit, see log above for details'')"
proof -
  let ?c = "\<lparr>action = ''edited'', pr_body = example_body,
      changes_body_from = Some example_previous_body\<rparr>"
  have onb: "isOnboarding ?c"
    by code_simp
  have chg: "didMessageChange ?c = Inr True"
    by code_simp
  have "thrown (handler (spec_deps example_config False [] None None (Some e)) ?c) =
      Some (Error ''Encountered issue after checklist edit, see log above for details'')" for e
  proof -
    let ?D = "spec_deps example_config False [] None None (Some e)"
    obtain sections where secs: "createLabelChecklists ?D ?c example_config False = Inr sections"
      using spec_deps_sections by blast
    have cfg: "getConfig ?D ?c = Inr example_config" and sent: "sentByThisApp ?D ?c = Inr False"
      by (simp_all add: spec_deps_sel)
    have u: "pulls_update ?D ?c body = Some e" for body
      by (simp add: spec_deps_sel)
    from edited_flow_reached [OF cfg _ onb chg sent secs] show ?thesis
      unfolding Let_def u by auto
  qed
  then show ?thesis
    by simp
qed

text \<open>
  Claim C8. On an \<open>opened\<close> event of a pull request without a release label, when the
  checklists can be rendered, the handler issues one call, the update of the body, and adds
  or removes no label. When the existing body starts with a character that is not white space
  and neither the body nor the wrapped message has a line that is indented or begins with a
  space, or a backslash followed by \<open>n\<close>, the body that is written is the existing body, an
  empty line and the wrapped message of the two sections. The items of the sections are all
  unchecked when the existing body holds no checklist of the namespace.
\<close>

theorem opened_flow_appends_envelope:
  fixes D :: "('lc, 'x, 'gl, 'rel) deps"
  assumes act: "action ctx = ''opened''"
    and cfg: "getConfig D ctx = Inr config"
    and rel: "\<not> hasReleaseLabels D (getLabelRelease D ctx config)"
    and secs: "createLabelChecklists D ctx config False = Inr sections"
  defines "wrapped \<equiv> messageWrapper (onBoardingMessage sections)"
  shows "(\<exists>written.
            handler D ctx = \<lparr>calls = [PullsUpdate written], thrown = None\<rparr> \<and>
            (pr_body ctx \<noteq> [] \<and> \<not> js_space (hd (pr_body ctx)) \<and>
             plain_text (pr_body ctx) \<and> plain_text wrapped \<longrightarrow>
               written = pr_body ctx @ ''\<newline>\<newline>'' @ wrapped)) \<and>
         (\<exists>labels' semverItems skipItems.
            listLabelsForRepo D ctx = Inr labels' \<and>
            semverChecklistItems D ctx config False labels' []
              (parseAutoChecklists D (pr_body ctx)) = Inr semverItems \<and>
            skipReleaseChecklistItems D ctx config False labels' []
              (parseAutoChecklists D (pr_body ctx)) = Inr skipItems \<and>
            sections =
              [section' D (semverHead D) (createAutoChecklist D semver semverItems)
                 (semverWarnings D semverItems),
               section' D (skipReleaseHead D) (createAutoChecklist D skipRelease skipItems)
                 (skipReleaseWarnings D skipItems)] \<and>
            (parseAutoChecklists D (pr_body ctx) = [] \<longrightarrow>
               list_all (\<lambda>i. \<not> checked i) (semverItems @ skipItems)))"
proof
  define written where "written =
      dedent (''\<newline>      '' @ pr_body ctx @ ''\<newline>      \<newline>      '' @ wrapped @ ''\<newline>    '')"
  have h: "handler D ctx = \<lparr>calls = [PullsUpdate written], thrown = None\<rparr>"
    using act cfg rel secs
    by (simp add: handler_def opened_flow_def Let_def written_def wrapped_def)
  have w: "wrapped \<noteq> []" "\<not> js_space (hd wrapped)" "\<not> js_space (last wrapped)"
    unfolding wrapped_def using messageWrapper_ends [of "onBoardingMessage sections"]
    by (simp_all add: js_space_def)
  have "written = pr_body ctx @ ''\<newline>\<newline>'' @ wrapped"
    if "pr_body ctx \<noteq> []" "\<not> js_space (hd (pr_body ctx))"
      "plain_text (pr_body ctx)" "plain_text wrapped"
    unfolding written_def using that(1-3) w that(4) by (rule dedent_appended)
  with h show "\<exists>written.
      handler D ctx = \<lparr>calls = [PullsUpdate written], thrown = None\<rparr> \<and>
      (pr_body ctx \<noteq> [] \<and> \<not> js_space (hd (pr_body ctx)) \<and>
       plain_text (pr_body ctx) \<and> plain_text wrapped \<longrightarrow>
         written = pr_body ctx @ ''\<newline>\<newline>'' @ wrapped)"
    by blast
next
  from secs obtain labels' semverItems skipItems where
    l: "listLabelsForRepo D ctx = Inr labels'"
    and s: "semverChecklistItems D ctx config False labels' []
        (parseAutoChecklists D (pr_body ctx)) = Inr semverItems"
    and k: "skipReleaseChecklistItems D ctx config False labels' []
        (parseAutoChecklists D (pr_body ctx)) = Inr skipItems"
    and e: "sections =
        [section' D (semverHead D) (createAutoChecklist D semver semverItems)
           (semverWarnings D semverItems),
         section' D (skipReleaseHead D) (createAutoChecklist D skipRelease skipItems)
           (skipReleaseWarnings D skipItems)]"
    by (auto simp: createLabelChecklists_def Let_def split: sum.splits)
  have "list_all (\<lambda>i. \<not> checked i) (semverItems @ skipItems)"
    if "parseAutoChecklists D (pr_body ctx) = []"
    using s k that
      promise_all_unchecked [where p = "\<lambda>labelType. populateLabel D labelType (labels config labelType) ctx labels'"
        and D = D and checklists' = "[]" and key = semver and prLabels = "[]"
        and xs = "[''major'', ''minor'', ''patch'']" and its = semverItems]
      promise_all_unchecked [where p = "\<lambda>labelConfig. populateLabel D ''skip-release'' (Some labelConfig) ctx labels'"
        and D = D and checklists' = "[]" and key = skipRelease and prLabels = "[]"
        and xs = "getSkipReleaseLabelsFromConfig D config" and its = skipItems]
    by (simp add: semverChecklistItems_def skipReleaseChecklistItems_def)
  with l s k e show "\<exists>labels' semverItems skipItems.
      listLabelsForRepo D ctx = Inr labels' \<and>
      semverChecklistItems D ctx config False labels' []
        (parseAutoChecklists D (pr_body ctx)) = Inr semverItems \<and>
      skipReleaseChecklistItems D ctx config False labels' []
        (parseAutoChecklists D (pr_body ctx)) = Inr skipItems \<and>
      sections =
        [section' D (semverHead D) (createAutoChecklist D semver semverItems)
           (semverWarnings D semverItems),
         section' D (skipReleaseHead D) (createAutoChecklist D skipRelease skipItems)
           (skipReleaseWarnings D skipItems)] \<and>
      (parseAutoChecklists D (pr_body ctx) = [] \<longrightarrow>
         list_all (\<lambda>i. \<not> checked i) (semverItems @ skipItems))"
    by blast
qed

text \<open>
  An instance: a description of one sentence, without a checklist.
\<close>

theorem opened_flow_appends_envelope_witness:
  "\<not> hasReleaseLabels (spec_deps example_config False [] None None None)
      (getLabelRelease (spec_deps example_config False [] None None None)
         \<lparr>action = ''opened'', pr_body = ''Fixes a bug.'', changes_body_from = None\<rparr>
         example_config) \<and>
   parseAutoChecklists (spec_deps example_config False [] None None None) ''Fixes a bug.'' = [] \<and>
   \<not> js_space (hd ''Fixes a bug.'') \<and> plain_text ''Fixes a bug.'' \<and>
   handler (spec_deps example_config False [] None None None)
     \<lparr>action = ''opened'', pr_body = ''Fixes a bug.'', changes_body_from = None\<rparr> =
     \<lparr>calls = [PullsUpdate (''Fixes a bug.'' @ ''\<newline>\<newline>'' @
        messageWrapper (onBoardingMessage
          [section' (spec_deps example_config False [] None None None)
             (semverHead (spec_deps example_config False [] None None None))
             (createAutoChecklist (spec_deps example_config False [] None None None) semver
                [\<lparr>item_id = ''major'', checked = False, item_body = ''major''\<rparr>,
                 \<lparr>item_id = ''minor'', checked = False, item_body = ''minor''\<rparr>,
                 \<lparr>item_id = ''patch'', checked = False, item_body = ''patch''\<rparr>])
             None,
           section' (spec_deps example_config False [] None None None)
             (skipReleaseHead (spec_deps example_config False [] None None None))
             (createAutoChecklist (spec_deps example_config False [] None None None)
                skipRelease [])
             None]))],
      thrown = None\<rparr>"
proof -
  let ?D = "spec_deps example_config False [] None None None"
  let ?c = "\<lparr>action = ''opened'', pr_body = ''Fixes a bug.'', changes_body_from = None\<rparr>"
  let ?secs = "[section' ?D (semverHead ?D)
             (createAutoChecklist ?D semver
                [\<lparr>item_id = ''major'', checked = False, item_body = ''major''\<rparr>,
                 \<lparr>item_id = ''minor'', checked = False, item_body = ''minor''\<rparr>,
                 \<lparr>item_id = ''patch'', checked = False, item_body = ''patch''\<rparr>])
             None,
           section' ?D (skipReleaseHead ?D) (createAutoChecklist ?D skipRelease []) None]"
  have rel: "\<not> hasReleaseLabels ?D (getLabelRelease ?D ?c example_config)"
    by code_simp
  have p: "parseAutoChecklists ?D ''Fixes a bug.'' = []"
    by code_simp
  have cfg: "getConfig ?D ?c = Inr example_config"
    by (simp add: spec_deps_sel)
  have si: "semverChecklistItems ?D ?c example_config False [] [] [] =
      Inr [\<lparr>item_id = ''major'', checked = False, item_body = ''major''\<rparr>,
           \<lparr>item_id = ''minor'', checked = False, item_body = ''minor''\<rparr>,
           \<lparr>item_id = ''patch'', checked = False, item_body = ''patch''\<rparr>]"
    by code_simp
  have ki: "skipReleaseChecklistItems ?D ?c example_config False [] [] [] = Inr []"
    by code_simp
  have secs: "createLabelChecklists ?D ?c example_config False = Inr ?secs"
    using p si ki
    by (simp add: createLabelChecklists_def Let_def spec_deps_sel semverWarnings_def
        skipReleaseWarnings_def spec_moreThanOneItemChecked_def)
  have b: "\<not> js_space (hd ''Fixes a bug.'')" "plain_text ''Fixes a bug.''"
    by code_simp+
  have wr: "plain_text (messageWrapper (onBoardingMessage ?secs))"
    by code_simp
  from opened_flow_appends_envelope [OF _ cfg rel secs] b wr
  have "handler ?D ?c =
      \<lparr>calls = [PullsUpdate (''Fixes a bug.'' @ ''\<newline>\<newline>'' @
         messageWrapper (onBoardingMessage ?secs))], thrown = None\<rparr>"
    by auto
  with rel p b show ?thesis
    by (intro conjI)
qed

text \<open>
  A description that already holds a checklist with ticked boxes is rendered with these
  boxes ticked: the items of the new envelope are not derived from no prior state.
\<close>

theorem opened_flow_appends_envelope_counterexample:
  "action \<lparr>action = ''opened'', pr_body = example_body, changes_body_from = None\<rparr> = ''opened'' \<and>
   \<not> hasReleaseLabels (spec_deps example_config False [] None None None)
      (getLabelRelease (spec_deps example_config False [] None None None)
         \<lparr>action = ''opened'', pr_body = example_body, changes_body_from = None\<rparr>
         example_config) \<and>
   calls (handler (spec_deps example_config False [] None None None)
     \<lparr>action = ''opened'', pr_body = example_body, changes_body_from = None\<rparr>) =
     [PullsUpdate (dedent
        (''\<newline>      '' @ example_body @ ''\<newline>      \<newline>      '' @
         messageWrapper (onBoardingMessage
           [section' (spec_deps example_config False [] None None None)
              (semverHead (spec_deps example_config False [] None None None))
              (createAutoChecklist (spec_deps example_config False [] None None None) semver
                 [\<lparr>item_id = ''major'', checked = True, item_body = ''major''\<rparr>,
                  \<lparr>item_id = ''minor'', checked = True, item_body = ''minor''\<rparr>,
                  \<lparr>item_id = ''patch'', checked = False, item_body = ''patch''\<rparr>])
              (Some ''At most one semver label should be selected''),
            section' (spec_deps example_config False [] None None None)
              (skipReleaseHead (spec_deps example_config False [] None None None))
              (createAutoChecklist (spec_deps example_config False [] None None None)
                 skipRelease [])
              None]) @
         ''\<newline>    ''))]"
proof -
  let ?D = "spec_deps example_config False [] None None None"
  let ?c = "\<lparr>action = ''opened'', pr_body = example_body, changes_body_from = None\<rparr>"
  have rel: "\<not> hasReleaseLabels ?D (getLabelRelease ?D ?c example_config)"
    by code_simp
  have si: "semverChecklistItems ?D ?c example_config False [] []
      (parseAutoChecklists ?D example_body) =
      Inr [\<lparr>item_id = ''major'', checked = True, item_body = ''major''\<rparr>,
           \<lparr>item_id = ''minor'', checked = True, item_body = ''minor''\<rparr>,
           \<lparr>item_id = ''patch'', checked = False, item_body = ''patch''\<rparr>]"
    by code_simp
  have ki: "skipReleaseChecklistItems ?D ?c example_config False [] []
      (parseAutoChecklists ?D example_body) = Inr []"
    by code_simp
  have secs: "createLabelChecklists ?D ?c example_config False =
      Inr [section' ?D (semverHead ?D)
             (createAutoChecklist ?D semver
                [\<lparr>item_id = ''major'', checked = True, item_body = ''major''\<rparr>,
                 \<lparr>item_id = ''minor'', checked = True, item_body = ''minor''\<rparr>,
                 \<lparr>item_id = ''patch'', checked = False, item_body = ''patch''\<rparr>])
             (Some ''At most one semver label should be selected''),
           section' ?D (skipReleaseHead ?D) (createAutoChecklist ?D skipRelease []) None]"
    using si ki
    by (simp add: createLabelChecklists_def Let_def spec_deps_sel semverWarnings_def
        skipReleaseWarnings_def spec_moreThanOneItemChecked_def)
  have cfg: "getConfig ?D ?c = Inr example_config"
    by (simp add: spec_deps_sel)
  have "handler ?D ?c = opened_flow ?D ?c example_config"
    by (rule handler_opened [OF _ cfg rel]) simp
  with secs have "calls (handler ?D ?c) =
      [PullsUpdate (dedent
        (''\<newline>      '' @ example_body @ ''\<newline>      \<newline>      '' @
         messageWrapper (onBoardingMessage
           [section' ?D (semverHead ?D)
              (createAutoChecklist ?D semver
                 [\<lparr>item_id = ''major'', checked = True, item_body = ''major''\<rparr>,
                  \<lparr>item_id = ''minor'', checked = True, item_body = ''minor''\<rparr>,
                  \<lparr>item_id = ''patch'', checked = False, item_body = ''patch''\<rparr>])
              (Some ''At most one semver label should be selected''),
            section' ?D (skipReleaseHead ?D) (createAutoChecklist ?D skipRelease []) None]) @
         ''\<newline>    ''))]"
    by (simp add: opened_flow_def Let_def)
  moreover have "action ?c = ''opened''"
    by simp
  ultimately show ?thesis
    using rel by (intro conjI)
qed

end
